theory Spec2Isabelle
  imports Main "HOL-Library.Sublist" "HOL-Library.List_Lexorder" "HOL-Library.Char_ord"
begin

section \<open>The file system the scripts work on\<close>

text \<open>
  A path is the list of its components, relative to the working directory (the scripts
  use \<^verbatim>\<open>Path("./public/assets")\<close>, whose parts are \<open>public\<close> and \<open>assets\<close>). A node is a
  regular file with its bytes or a directory with its entries. A directory holds each
  name once: \<open>lookup_es\<close> finds the first entry of a name and \<open>walk_es\<close> skips a name
  it has listed already.
\<close>

type_synonym path = "string list"

datatype node = File string | Dir "(string \<times> node) list"

fun lookup :: "node \<Rightarrow> path \<Rightarrow> node option"
  and lookup_es :: "(string \<times> node) list \<Rightarrow> string \<Rightarrow> path \<Rightarrow> node option" where
  "lookup n [] = Some n"
| "lookup (File c) (x # xs) = None"
| "lookup (Dir es) (x # xs) = lookup_es es x xs"
| "lookup_es [] x xs = None"
| "lookup_es ((y, c) # es) x xs = (if x = y then lookup c xs else lookup_es es x xs)"

text \<open>\<open>put t p n\<close> makes \<open>n\<close> the node at \<open>p\<close> (new, or in place of the one there); it
  changes nothing when the parent of \<open>p\<close> is not a directory of \<open>t\<close>.\<close>

fun put :: "node \<Rightarrow> path \<Rightarrow> node \<Rightarrow> node"
  and put_es :: "(string \<times> node) list \<Rightarrow> string \<Rightarrow> path \<Rightarrow> node \<Rightarrow> (string \<times> node) list" where
  "put t [] n = n"
| "put (File c) (x # xs) n = File c"
| "put (Dir es) (x # xs) n = Dir (put_es es x xs n)"
| "put_es [] x xs n = (if xs = [] then [(x, n)] else [])"
| "put_es ((y, c) # es) x xs n =
     (if x = y then (y, put c xs n) # es else (y, c) # put_es es x xs n)"

text \<open>\<open>del t p\<close> removes the entry at \<open>p\<close> with everything below it.\<close>

fun del :: "node \<Rightarrow> path \<Rightarrow> node"
  and del_es :: "(string \<times> node) list \<Rightarrow> string \<Rightarrow> path \<Rightarrow> (string \<times> node) list" where
  "del t [] = t"
| "del (File c) (x # xs) = File c"
| "del (Dir es) (x # xs) = Dir (del_es es x xs)"
| "del_es [] x xs = []"
| "del_es ((y, c) # es) x xs =
     (if x = y then (if xs = [] then filter (\<lambda>e. fst e \<noteq> x) es else (y, del c xs) # es)
      else (y, c) # del_es es x xs)"

text \<open>The recursive directory walk: every path below a node, parents before children.\<close>

fun walk :: "node \<Rightarrow> path list"
  and walk_es :: "string list \<Rightarrow> (string \<times> node) list \<Rightarrow> path list" where
  "walk (File c) = []"
| "walk (Dir es) = walk_es [] es"
| "walk_es seen [] = []"
| "walk_es seen ((x, c) # es) =
     (if x \<in> set seen then [] else [x] # map ((#) x) (walk c)) @ walk_es (x # seen) es"

text \<open>What \<^verbatim>\<open>stat\<close> tells of a path: nothing there, a regular file, or a directory.\<close>

datatype kind = Regular | Directory

fun kind_of :: "node \<Rightarrow> kind" where
  "kind_of (File c) = Regular"
| "kind_of (Dir es) = Directory"

definition kind_at :: "node \<Rightarrow> path \<Rightarrow> kind option" where
  "kind_at t p = map_option kind_of (lookup t p)"

text \<open>\<^verbatim>\<open>st_size\<close>: the number of bytes of a regular file. For a directory the value is
  the file system's business (4096 on ext4); no property below depends on it.\<close>

fun st_size :: "node \<Rightarrow> nat" where
  "st_size (File c) = length c"
| "st_size (Dir es) = 4096"

subsection \<open>The world: the tree and the paths the operating system refuses to touch\<close>

text \<open>
  The exceptions of the file operations are values. \<open>locked\<close> lists the paths on which
  the operating system refuses to create, write, rename or remove an entry (a read-only
  directory entry, a file another program holds open on Windows): an operation on such a
  path raises \<^verbatim>\<open>PermissionError\<close>. Every operation either fails and leaves the tree as it
  was, or succeeds.
\<close>

datatype error =
  FileNotFoundError | FileExistsError | NotADirectoryError | IsADirectoryError
  | PermissionError | InvalidArgument | ShutilError | ZeroDivisionError | UnicodeEncodeError

record world =
  tree :: node
  locked :: "path list"

definition path_exists :: "world \<Rightarrow> path \<Rightarrow> bool" where
  "path_exists w p = (lookup (tree w) p \<noteq> None)"

definition is_dir :: "world \<Rightarrow> path \<Rightarrow> bool" where
  "is_dir w p = (kind_at (tree w) p = Some Directory)"

text \<open>\<^verbatim>\<open>os.mkdir(p)\<close>.\<close>

definition os_mkdir :: "world \<Rightarrow> path \<Rightarrow> error + world" where
  "os_mkdir w p =
     (if path_exists w p then Inl FileExistsError
      else case kind_at (tree w) (butlast p) of
        None \<Rightarrow> Inl FileNotFoundError
      | Some Regular \<Rightarrow> Inl NotADirectoryError
      | Some Directory \<Rightarrow>
          if p \<in> set (locked w) then Inl PermissionError
          else Inr (w\<lparr>tree := put (tree w) p (Dir [])\<rparr>))"

text \<open>
  \<^verbatim>\<open>Path.mkdir(parents, exist_ok)\<close>, as pathlib writes it:
  \<^verbatim>\<open>
    try:
        os.mkdir(self, mode)
    except FileNotFoundError:
        if not parents or self.parent == self:
            raise
        self.parent.mkdir(parents=True, exist_ok=True)
        self.mkdir(mode, parents=False, exist_ok=exist_ok)
    except OSError:
        if not exist_ok or not self.is_dir():
            raise
  \<close>
  The result is the exception raised, if any, and the world as the call leaves it
  (ancestors it has created stay when a later step raises).
\<close>

function path_mkdir :: "world \<Rightarrow> path \<Rightarrow> bool \<Rightarrow> bool \<Rightarrow> error option \<times> world" where
  "path_mkdir w p parents exist_ok =
     (case os_mkdir w p of
        Inr w' \<Rightarrow> (None, w')
      | Inl e \<Rightarrow>
          if e = FileNotFoundError then
            (if \<not> parents \<or> p = [] then (Some e, w)
             else (case path_mkdir w (butlast p) True True of
                     (Some e', w1) \<Rightarrow> (Some e', w1)
                   | (None, w1) \<Rightarrow> path_mkdir w1 p False exist_ok))
          else if \<not> exist_ok \<or> \<not> is_dir w p then (Some e, w)
          else (None, w))"
  by pat_completeness auto
termination
  by (relation "measure (\<lambda>(w, p, parents, exist_ok). 2 * length p + (if parents then 1 else 0))")
     auto

text \<open>\<^verbatim>\<open>Path.unlink()\<close>.\<close>

definition path_unlink :: "world \<Rightarrow> path \<Rightarrow> error + world" where
  "path_unlink w p =
     (case kind_at (tree w) p of
        None \<Rightarrow> Inl FileNotFoundError
      | Some Directory \<Rightarrow> Inl IsADirectoryError
      | Some Regular \<Rightarrow>
          if p = [] \<or> p \<in> set (locked w) then Inl PermissionError
          else Inr (w\<lparr>tree := del (tree w) p\<rparr>))"

text \<open>
  \<^verbatim>\<open>os.rename(src, dst)\<close> on POSIX, for the destinations \<^verbatim>\<open>shutil.move\<close> hands it: a
  path with nothing on it or a regular file (which it replaces), or \<open>src\<close> itself.
\<close>

definition os_rename :: "world \<Rightarrow> path \<Rightarrow> path \<Rightarrow> error + world" where
  "os_rename w src dst =
     (case lookup (tree w) src of
        None \<Rightarrow> Inl FileNotFoundError
      | Some n \<Rightarrow>
          if src = [] then Inl InvalidArgument
          else if src = dst then Inr w
          else if prefix src dst then
            (if kind_of n = Directory then Inl InvalidArgument else Inl NotADirectoryError)
          else (case kind_at (tree w) (butlast dst) of
            None \<Rightarrow> Inl FileNotFoundError
          | Some Regular \<Rightarrow> Inl NotADirectoryError
          | Some Directory \<Rightarrow>
              if kind_at (tree w) dst = Some Directory then
                (if kind_of n = Directory then Inl FileExistsError else Inl IsADirectoryError)
              else if kind_at (tree w) dst = Some Regular \<and> kind_of n = Directory
                then Inl NotADirectoryError
              else if src \<in> set (locked w) \<or> dst \<in> set (locked w) then Inl PermissionError
              else Inr (w\<lparr>tree := put (del (tree w) src) dst n\<rparr>)))"

text \<open>
  \<^verbatim>\<open>shutil.move(src, dst)\<close>: into \<open>dst\<close> when \<open>dst\<close> is a directory (an error when the
  name is taken there), a rename otherwise. When the rename fails, shutil tries to copy
  and delete; on one file system, with \<open>locked\<close> paths closed to reading and writing
  alike, the copy fails where the rename did and nothing has changed (the exception may
  differ in name; the scripts never look at it).
\<close>

definition shutil_move :: "world \<Rightarrow> path \<Rightarrow> path \<Rightarrow> error + world" where
  "shutil_move w src dst =
     (if is_dir w dst \<and> src \<noteq> dst then
        (if src = [] then Inl ShutilError
         else if path_exists w (dst @ [last src]) then Inl ShutilError
         else os_rename w src (dst @ [last src]))
      else os_rename w src dst)"

subsection \<open>Paths and strings, as pathlib and \<^verbatim>\<open>str\<close> have them\<close>

definition ASSETS_DIR :: path where
  "ASSETS_DIR = [''public'', ''assets'']"

definition BACKUP_DIR :: path where
  "BACKUP_DIR = ASSETS_DIR @ [''originals'']"

definition SUPPORTED_EXTENSIONS :: "string list" where
  "SUPPORTED_EXTENSIONS = [''.glb'', ''.gltf'']"

text \<open>\<^verbatim>\<open>name.rfind(c)\<close>: the index of the last \<open>c\<close>, \<open>None\<close> for Python's \<open>-1\<close>.\<close>

fun rfind :: "char \<Rightarrow> string \<Rightarrow> nat option" where
  "rfind c [] = None"
| "rfind c (x # xs) =
     (case rfind c xs of Some i \<Rightarrow> Some (Suc i) | None \<Rightarrow> if x = c then Some 0 else None)"

text \<open>\<^verbatim>\<open>PurePath.suffix\<close> and \<^verbatim>\<open>PurePath.stem\<close>: split at the last dot, unless the dot is
  the first or the last character of the name.\<close>

definition path_suffix :: "string \<Rightarrow> string" where
  "path_suffix name =
     (case rfind (CHR ''.'') name of
        Some i \<Rightarrow> if 0 < i \<and> i < length name - 1 then drop i name else []
      | None \<Rightarrow> [])"

definition path_stem :: "string \<Rightarrow> string" where
  "path_stem name =
     (case rfind (CHR ''.'') name of
        Some i \<Rightarrow> if 0 < i \<and> i < length name - 1 then take i name else name
      | None \<Rightarrow> name)"

text \<open>\<^verbatim>\<open>s.replace(old, new)\<close>: every occurrence of \<open>old\<close>, found from the left and not
  overlapping; an empty \<open>old\<close> puts \<open>new\<close> before every character and at the end.\<close>

function str_replace :: "string \<Rightarrow> string \<Rightarrow> string \<Rightarrow> string" where
  "str_replace s old new =
     (if old = [] then new @ concat (map (\<lambda>c. c # new) s)
      else if s = [] then []
      else if prefix old s then new @ str_replace (drop (length old) s) old new
      else hd s # str_replace (tl s) old new)"
  by pat_completeness auto
termination
  by (relation "measure (\<lambda>(s, old, new). length s)") (auto simp: prefix_def)

text \<open>\<^verbatim>\<open>p.relative_to(ASSETS_DIR)\<close> raises when \<open>p\<close> is not \<open>ASSETS_DIR\<close> or below it.\<close>

definition relative_to :: "path \<Rightarrow> path \<Rightarrow> path option" where
  "relative_to p base = (if prefix base p then Some (drop (length base) p) else None)"

text \<open>\<^verbatim>\<open>root.rglob("*" + tail)\<close>: every entry below \<open>root\<close>, at any depth, whose name ends
  with \<open>tail\<close> (the comparison is case-sensitive, as on POSIX). Nothing when \<open>root\<close> is
  not a directory.\<close>

definition rglob_star :: "world \<Rightarrow> path \<Rightarrow> string \<Rightarrow> path list" where
  "rglob_star w root tail =
     (case lookup (tree w) root of
        Some (Dir es) \<Rightarrow> map ((@) root) (filter (\<lambda>p. suffix tail (last p)) (walk (Dir es)))
      | _ \<Rightarrow> [])"

text \<open>\<^verbatim>\<open>p.name\<close>, \<^verbatim>\<open>p.parents\<close> (every proper ancestor) and \<^verbatim>\<open>p / name\<close>.\<close>

definition path_name :: "path \<Rightarrow> string" where
  "path_name p = (if p = [] then [] else last p)"

definition path_parents :: "path \<Rightarrow> path list" where
  "path_parents p = rev (butlast (prefixes p))"

definition path_join :: "path \<Rightarrow> string \<Rightarrow> path" where
  "path_join p name = (if name = [] then p else p @ [name])"

text \<open>
  A \<^verbatim>\<open>str\<close> is kept as the bytes of its UTF-8 encoding. \<^verbatim>\<open>s.lower()\<close> lowers the letters
  \<open>A\<close> to \<open>Z\<close>. Beyond ASCII it never yields an ASCII text that the scripts compare with
  (the only code points beyond ASCII whose lower case has an ASCII letter are U+212A,
  which gives \<open>k\<close>, and U+0130, which gives \<open>i\<close> followed by U+0307), and the bytes beyond
  ASCII are left as they are.
\<close>

definition lower_char :: "char \<Rightarrow> char" where
  "lower_char c =
     (if CHR ''A'' \<le> c \<and> c \<le> CHR ''Z'' then char_of (of_char c + (32 :: nat)) else c)"

definition str_lower :: "string \<Rightarrow> string" where
  "str_lower s = map lower_char s"

text \<open>
  \<^verbatim>\<open>s.strip()\<close> removes from both ends the characters Python holds for whitespace:
  U+0009 to U+000D, U+001C to U+0020, U+0085, U+00A0, U+1680, U+2000 to U+200A, U+2028,
  U+2029, U+202F, U+205F and U+3000. \<open>whitespace\<close> lists their encodings; in a well-formed
  text an encoding found at an end is the character at that end.
\<close>

definition whitespace :: "string list" where
  "whitespace =
     [[CHR 0x09], [CHR 0x0A], [CHR 0x0B], [CHR 0x0C], [CHR 0x0D],
      [CHR 0x1C], [CHR 0x1D], [CHR 0x1E], [CHR 0x1F], [CHR 0x20],
      [CHR 0xC2, CHR 0x85], [CHR 0xC2, CHR 0xA0], [CHR 0xE1, CHR 0x9A, CHR 0x80],
      [CHR 0xE2, CHR 0x80, CHR 0x80], [CHR 0xE2, CHR 0x80, CHR 0x81], [CHR 0xE2, CHR 0x80, CHR 0x82],
      [CHR 0xE2, CHR 0x80, CHR 0x83], [CHR 0xE2, CHR 0x80, CHR 0x84], [CHR 0xE2, CHR 0x80, CHR 0x85],
      [CHR 0xE2, CHR 0x80, CHR 0x86], [CHR 0xE2, CHR 0x80, CHR 0x87], [CHR 0xE2, CHR 0x80, CHR 0x88],
      [CHR 0xE2, CHR 0x80, CHR 0x89], [CHR 0xE2, CHR 0x80, CHR 0x8A],
      [CHR 0xE2, CHR 0x80, CHR 0xA8], [CHR 0xE2, CHR 0x80, CHR 0xA9], [CHR 0xE2, CHR 0x80, CHR 0xAF],
      [CHR 0xE2, CHR 0x81, CHR 0x9F], [CHR 0xE3, CHR 0x80, CHR 0x80]]"

text \<open>\<open>strip_left ws s\<close> removes from the front of \<open>s\<close> every leading member of \<open>ws\<close>, one
  after the other.\<close>

function strip_left :: "string list \<Rightarrow> string \<Rightarrow> string" where
  "strip_left ws s =
     (case List.find (\<lambda>x. x \<noteq> [] \<and> prefix x s) ws of
        None \<Rightarrow> s
      | Some x \<Rightarrow> strip_left ws (drop (length x) s))"
  by pat_completeness auto
termination
proof (relation "measure (\<lambda>(ws, s). length s)")
  show "wf (measure (\<lambda>(ws, s). length s))" by simp
next
  fix ws :: "string list" and s x :: string
  assume "List.find (\<lambda>x. x \<noteq> [] \<and> prefix x s) ws = Some x"
  then have "x \<noteq> []" "prefix x s" by (auto simp: find_Some_iff)
  then have "length (drop (length x) s) < length s" by (auto simp: prefix_def)
  then show "((ws, drop (length x) s), (ws, s)) \<in> measure (\<lambda>(ws, s). length s)" by simp
qed

definition str_strip :: "string \<Rightarrow> string" where
  "str_strip s = rev (strip_left (map rev whitespace) (rev (strip_left whitespace s)))"

section \<open>fix-names.py: remove the suffix \<^verbatim>\<open>-optimized\<close>\<close>

definition find_optimized_files :: "world \<Rightarrow> path list" where
  "find_optimized_files w =
     sort (concat (map
       (\<lambda>ext. filter
          (\<lambda>file_path. \<not> (BACKUP_DIR \<in> set (path_parents file_path) \<or> butlast file_path = BACKUP_DIR))
          (rglob_star w ASSETS_DIR (''-optimized'' @ ext)))
       [''.glb'', ''.gltf'']))"

definition get_original_name :: "path \<Rightarrow> path" where
  "get_original_name optimized_path =
     path_join (butlast optimized_path)
       (str_replace (path_stem (path_name optimized_path)) ''-optimized'' [] @
        path_suffix (path_name optimized_path))"

text \<open>
  The backup of the file that holds the destination: lines 57 to 71 of fix-names.py, and
  the same statements at lines 141 to 154 of optimize-assets.py. First the backup path:
  the mirrored one, or, when \<^verbatim>\<open>relative_to\<close> or \<^verbatim>\<open>mkdir\<close> raises, the one right under the
  backup root (\<^verbatim>\<open>except: backup_path = BACKUP_DIR / original_path.name\<close>).
\<close>

definition backup_path_for :: "world \<Rightarrow> path \<Rightarrow> path \<times> world" where
  "backup_path_for w original_path =
     (case relative_to original_path ASSETS_DIR of
        None \<Rightarrow> (path_join BACKUP_DIR (path_name original_path), w)
      | Some rel_to_assets \<Rightarrow>
          (case path_mkdir w (BACKUP_DIR @ butlast rel_to_assets) True True of
             (Some e, w1) \<Rightarrow> (path_join BACKUP_DIR (path_name original_path), w1)
           | (None, w1) \<Rightarrow>
               (path_join (BACKUP_DIR @ butlast rel_to_assets) (path_name original_path), w1)))"

text \<open>Then the move, or the removal when a backup is there already.\<close>

definition backup_original :: "world \<Rightarrow> path \<Rightarrow> error option \<times> world" where
  "backup_original w original_path =
     (case backup_path_for w original_path of
        (backup_path, w1) \<Rightarrow>
          if \<not> path_exists w1 backup_path then
            (case shutil_move w1 original_path backup_path of
               Inl e \<Rightarrow> (Some e, w1)
             | Inr w2 \<Rightarrow> (None, w2))
          else
            (case path_unlink w1 original_path of
               Inl e \<Rightarrow> (Some e, w1)
             | Inr w2 \<Rightarrow> (None, w2)))"

text \<open>\<^verbatim>\<open>process_file(optimized_path, dry_run)\<close>: the value returned and the world it
  leaves. Every exception of the real run ends in \<^verbatim>\<open>return False\<close>.\<close>

definition fix_process_file :: "world \<Rightarrow> path \<Rightarrow> bool \<Rightarrow> bool \<times> world" where
  "fix_process_file w optimized_path dry_run =
     (let original_path = get_original_name optimized_path;
          original_exists = path_exists w original_path
      in if dry_run then (True, w)
         else
           (case (if original_exists then backup_original w original_path else (None, w)) of
              (Some e, w1) \<Rightarrow> (False, w1)
            | (None, w1) \<Rightarrow>
                (case shutil_move w1 optimized_path original_path of
                   Inl e \<Rightarrow> (False, w1)
                 | Inr w2 \<Rightarrow> (True, w2))))"

text \<open>The path the summary prints for a file.\<close>

definition fix_rel_path :: "path \<Rightarrow> path" where
  "fix_rel_path file_path =
     (if ASSETS_DIR \<in> set (path_parents file_path) then drop (length ASSETS_DIR) file_path
      else [path_name file_path])"

text \<open>How a run ends: \<^verbatim>\<open>sys.exit(n)\<close> (falling off the end of \<^verbatim>\<open>main\<close> is exit code 0),
  or an exception nobody catches.\<close>

datatype outcome = Exit nat | Uncaught error

record run =
  outcome :: outcome
  success_count :: nat
  failed_files :: "path list"
  final :: world

text \<open>The preview loop and the loop of the real run.\<close>

fun fix_preview :: "world \<Rightarrow> path list \<Rightarrow> world" where
  "fix_preview w [] = w"
| "fix_preview w (file_path # rest) = fix_preview (snd (fix_process_file w file_path True)) rest"

fun fix_loop :: "world \<Rightarrow> path list \<Rightarrow> nat \<Rightarrow> path list \<Rightarrow> nat \<times> path list \<times> world" where
  "fix_loop w [] n failed = (n, failed, w)"
| "fix_loop w (file_path # rest) n failed =
     (case fix_process_file w file_path False of
        (True, w1) \<Rightarrow> fix_loop w1 rest (Suc n) failed
      | (False, w1) \<Rightarrow> fix_loop w1 rest n (failed @ [fix_rel_path file_path]))"

definition affirmative :: "string list" where
  "affirmative = [''s'', ''sim'', ''y'', ''yes'']"

text \<open>\<^verbatim>\<open>main()\<close>. \<open>stdin\<close> is the line \<^verbatim>\<open>input()\<close> returns, \<open>None\<close> when it raises (a closed
  or unreadable input).\<close>

definition fix_main :: "world \<Rightarrow> string option \<Rightarrow> run" where
  "fix_main w stdin =
     (if \<not> path_exists w ASSETS_DIR then
        \<lparr>outcome = Exit 1, success_count = 0, failed_files = [], final = w\<rparr>
      else
        let optimized_files = find_optimized_files w in
        if optimized_files = [] then
          \<lparr>outcome = Exit 0, success_count = 0, failed_files = [], final = w\<rparr>
        else
          let w1 = fix_preview w optimized_files in
          (case stdin of
             None \<Rightarrow> \<lparr>outcome = Exit 0, success_count = 0, failed_files = [], final = w1\<rparr>
           | Some line \<Rightarrow>
               let resposta = str_lower (str_strip line) in
               if resposta \<notin> set affirmative then
                 \<lparr>outcome = Exit 0, success_count = 0, failed_files = [], final = w1\<rparr>
               else
                 (case path_mkdir w1 BACKUP_DIR False True of
                    (Some e, w2) \<Rightarrow>
                      \<lparr>outcome = Uncaught e, success_count = 0, failed_files = [], final = w2\<rparr>
                  | (None, w2) \<Rightarrow>
                      (case fix_loop w2 optimized_files 0 [] of
                         (n, failed, w3) \<Rightarrow>
                           \<lparr>outcome = Exit 0, success_count = n, failed_files = failed,
                            final = w3\<rparr>))))"

section \<open>optimize-assets.py: optimise every model and keep its name\<close>

text \<open>
  The external optimiser is a black box: for the input path and what is there it says
  whether the command returned 0 (\<^verbatim>\<open>run_command_with_encoding\<close> turns a timeout and every
  other exception into \<open>False\<close>) and which bytes, if any, it has left at the output path
  (a whole file, or a partial one when it failed on the way). It writes nowhere else.
  \<open>installed\<close> is what \<^verbatim>\<open>check_gltf_transform\<close> finds, \<open>install_ok\<close> whether
  \<^verbatim>\<open>npm install\<close> succeeds.
\<close>

record tool_result =
  returncode_ok :: bool
  written :: "string option"

record env =
  optimizer :: "path \<Rightarrow> node option \<Rightarrow> tool_result"
  installed :: bool
  install_ok :: bool

definition run_optimizer :: "env \<Rightarrow> world \<Rightarrow> path \<Rightarrow> path \<Rightarrow> bool \<times> world" where
  "run_optimizer e w input_path output_path =
     (let r = optimizer e input_path (lookup (tree w) input_path) in
      (returncode_ok r,
       (case written r of
          None \<Rightarrow> w
        | Some c \<Rightarrow>
            if output_path \<noteq> [] \<and> kind_at (tree w) (butlast output_path) = Some Directory
               \<and> kind_at (tree w) output_path \<noteq> Some Directory
               \<and> output_path \<notin> set (locked w)
            then w\<lparr>tree := put (tree w) output_path (File c)\<rparr>
            else w)))"

text \<open>\<^verbatim>\<open>optimize_file\<close> returns \<^verbatim>\<open>(success, reduction, original_size, new_size)\<close>; the
  percentage \<^verbatim>\<open>reduction\<close> is a float computed from the two sizes and is left out, but
  not the division by \<^verbatim>\<open>original_size\<close> that computes it.\<close>

definition optimize_file :: "env \<Rightarrow> world \<Rightarrow> path \<Rightarrow> path \<Rightarrow> (error + bool \<times> nat \<times> nat) \<times> world" where
  "optimize_file e w input_path output_path =
     (case run_optimizer e w input_path output_path of
        (success, w1) \<Rightarrow>
          if success \<and> path_exists w1 output_path then
            (case (lookup (tree w1) input_path, lookup (tree w1) output_path) of
               (Some i, Some out) \<Rightarrow>
                 if st_size i = 0 then (Inl ZeroDivisionError, w1)
                 else (Inr (True, st_size i, st_size out), w1)
             | _ \<Rightarrow> (Inl FileNotFoundError, w1))
          else (Inr (False, 0, 0), w1))"

definition get_relative_path :: "path \<Rightarrow> path \<Rightarrow> path" where
  "get_relative_path full_path base_dir =
     (case relative_to full_path base_dir of Some rel \<Rightarrow> rel | None \<Rightarrow> [path_name full_path])"

definition find_files_to_process :: "world \<Rightarrow> path list" where
  "find_files_to_process w =
     sort (concat (map
       (\<lambda>ext. filter
          (\<lambda>file_path. \<not> (BACKUP_DIR \<in> set (path_parents file_path) \<or> butlast file_path = BACKUP_DIR))
          (rglob_star w ASSETS_DIR ext))
       SUPPORTED_EXTENSIONS))"

definition temp_path_of :: "path \<Rightarrow> path" where
  "temp_path_of file_path =
     path_join (butlast file_path)
       (path_stem (path_name file_path) @ ''-temp-optimized'' @ path_suffix (path_name file_path))"

text \<open>\<^verbatim>\<open>process_file(file_path)\<close>: nothing here catches an exception; one that a file
  operation raises leaves the function.\<close>

definition opt_process_file :: "env \<Rightarrow> world \<Rightarrow> path \<Rightarrow> (error + bool \<times> nat \<times> nat) \<times> world" where
  "opt_process_file e w file_path =
     (let temp_path = temp_path_of file_path in
      case optimize_file e w file_path temp_path of
        (Inl err, w1) \<Rightarrow> (Inl err, w1)
      | (Inr (success, orig_size, new_size), w1) \<Rightarrow>
          if \<not> success then
            (if path_exists w1 temp_path then
               (case path_unlink w1 temp_path of
                  Inl err \<Rightarrow> (Inl err, w1)
                | Inr w2 \<Rightarrow> (Inr (False, 0, 0), w2))
             else (Inr (False, 0, 0), w1))
          else
            (case backup_original w1 file_path of
               (Some err, w2) \<Rightarrow> (Inl err, w2)
             | (None, w2) \<Rightarrow>
                 (case shutil_move w2 temp_path file_path of
                    Inl err \<Rightarrow> (Inl err, w2)
                  | Inr w3 \<Rightarrow> (Inr (True, orig_size, new_size), w3))))"

record totals =
  total_original :: nat
  total_optimized :: nat

fun opt_loop ::
  "env \<Rightarrow> world \<Rightarrow> path list \<Rightarrow> nat \<Rightarrow> path list \<Rightarrow> totals \<Rightarrow> (error option \<times> nat \<times> path list \<times> totals \<times> world)" where
  "opt_loop e w [] n failed tot = (None, n, failed, tot, w)"
| "opt_loop e w (file_path # rest) n failed tot =
     (case opt_process_file e w file_path of
        (Inl err, w1) \<Rightarrow> (Some err, n, failed, tot, w1)
      | (Inr (success, orig_size, new_size), w1) \<Rightarrow>
          if success then
            opt_loop e w1 rest (Suc n) failed
              (tot\<lparr>total_original := total_original tot + orig_size,
                   total_optimized := total_optimized tot + new_size\<rparr>)
          else opt_loop e w1 rest n (failed @ [get_relative_path file_path ASSETS_DIR]) tot)"

text \<open>\<^verbatim>\<open>main()\<close>. It reads nothing from the operator.\<close>

definition opt_main :: "env \<Rightarrow> world \<Rightarrow> run" where
  "opt_main e w =
     (if \<not> path_exists w ASSETS_DIR then
        \<lparr>outcome = Exit 1, success_count = 0, failed_files = [], final = w\<rparr>
      else
        (case path_mkdir w BACKUP_DIR False True of
           (Some err, w1) \<Rightarrow>
             \<lparr>outcome = Uncaught err, success_count = 0, failed_files = [], final = w1\<rparr>
         | (None, w1) \<Rightarrow>
             if \<not> installed e \<and> \<not> install_ok e then
               \<lparr>outcome = Exit 1, success_count = 0, failed_files = [], final = w1\<rparr>
             else
               let files_to_process = find_files_to_process w1 in
               if files_to_process = [] then
                 \<lparr>outcome = Exit 0, success_count = 0, failed_files = [], final = w1\<rparr>
               else
                 (case opt_loop e w1 files_to_process 0 []
                         \<lparr>total_original = 0, total_optimized = 0\<rparr> of
                    (Some err, n, failed, tot, w2) \<Rightarrow>
                      \<lparr>outcome = Uncaught err, success_count = n, failed_files = failed,
                       final = w2\<rparr>
                  | (None, n, failed, tot, w2) \<Rightarrow>
                      \<lparr>outcome = Exit 0, success_count = n, failed_files = failed,
                       final = w2\<rparr>)))"

section \<open>The listing scripts\<close>

text \<open>
  \<^verbatim>\<open>os.listdir(pasta)\<close> gives the names of the entries of a directory, in no particular
  order; \<^verbatim>\<open>os.path.isfile\<close> holds of the regular files among them. The directory is the
  list of its entries, as in \<open>Dir\<close>.
\<close>

definition listdir :: "(string \<times> node) list \<Rightarrow> string list" where
  "listdir es = remdups (map fst es)"

definition isfile :: "(string \<times> node) list \<Rightarrow> string \<Rightarrow> bool" where
  "isfile es nome = (case lookup_es es nome [] of Some (File c) \<Rightarrow> True | _ \<Rightarrow> False)"

definition listar_arquivos :: "(string \<times> node) list \<Rightarrow> string list" where
  "listar_arquivos pasta = sort (filter (\<lambda>nome. isfile pasta nome) (listdir pasta))"

definition listar_glb :: "(string \<times> node) list \<Rightarrow> string list" where
  "listar_glb pasta = sort (filter (\<lambda>nome. suffix ''.glb'' (str_lower nome)) (listdir pasta))"

text \<open>
  A name is the bytes the file system has for it. \<^verbatim>\<open>os.listdir\<close> decodes them as UTF-8 and
  keeps a byte it cannot decode as a lone surrogate (\<^verbatim>\<open>surrogateescape\<close>), so the \<^verbatim>\<open>str\<close> it
  returns can be encoded again exactly when the bytes are well-formed UTF-8:
  \<open>utf8_valid\<close>, by the table of the Unicode standard (no overlong form, no surrogate,
  nothing beyond U+10FFFF).
\<close>

definition between :: "nat \<Rightarrow> char \<Rightarrow> nat \<Rightarrow> bool" where
  "between lo c hi = (lo \<le> (of_char c :: nat) \<and> (of_char c :: nat) \<le> hi)"

fun utf8_valid :: "string \<Rightarrow> bool" where
  "utf8_valid [] = True"
| "utf8_valid (a # r) =
     (if between 0x00 a 0x7F then utf8_valid r
      else if between 0xC2 a 0xDF then
        (case r of b # r1 \<Rightarrow> between 0x80 b 0xBF \<and> utf8_valid r1 | _ \<Rightarrow> False)
      else if between 0xE0 a 0xEF then
        (case r of
           b # c # r2 \<Rightarrow>
             between (if a = CHR 0xE0 then 0xA0 else 0x80) b (if a = CHR 0xED then 0x9F else 0xBF)
             \<and> between 0x80 c 0xBF \<and> utf8_valid r2
         | _ \<Rightarrow> False)
      else if between 0xF0 a 0xF4 then
        (case r of
           b # c # d # r3 \<Rightarrow>
             between (if a = CHR 0xF0 then 0x90 else 0x80) b (if a = CHR 0xF4 then 0x8F else 0xBF)
             \<and> between 0x80 c 0xBF \<and> between 0x80 d 0xBF \<and> utf8_valid r3
         | _ \<Rightarrow> False)
      else False)"

text \<open>
  \<^verbatim>\<open>json.dump(arquivos, f, indent=2, ensure_ascii=False)\<close> on a list of strings, into a
  file opened (created or emptied) with \<^verbatim>\<open>encoding="utf-8"\<close>. With \<^verbatim>\<open>ensure_ascii=False\<close>
  the encoder escapes the quote, the backslash and the control characters below 0x20,
  and copies every other character.
\<close>

definition hex_digit :: "nat \<Rightarrow> char" where
  "hex_digit n = (if n < 10 then char_of (48 + n) else char_of (87 + n))"

definition json_escape_char :: "char \<Rightarrow> string" where
  "json_escape_char c =
     (if c = CHR 0x22 then [CHR 0x5C, CHR 0x22]
      else if c = CHR 0x5C then [CHR 0x5C, CHR 0x5C]
      else if c = CHR 0x0A then [CHR 0x5C, CHR ''n'']
      else if c = CHR 0x0D then [CHR 0x5C, CHR ''r'']
      else if c = CHR 0x09 then [CHR 0x5C, CHR ''t'']
      else if c = CHR 0x08 then [CHR 0x5C, CHR ''b'']
      else if c = CHR 0x0C then [CHR 0x5C, CHR ''f'']
      else if (of_char c :: nat) < 32 then
        [CHR 0x5C, CHR ''u'', CHR ''0'', CHR ''0'',
         hex_digit (of_char c div 16), hex_digit (of_char c mod 16)]
      else [c])"

definition json_string :: "string \<Rightarrow> string" where
  "json_string s = [CHR 0x22] @ concat (map json_escape_char s) @ [CHR 0x22]"

text \<open>
  \<^verbatim>\<open>json.dump\<close> writes what the encoder yields piece by piece (\<^verbatim>\<open>for chunk in iterable:
  fp.write(chunk)\<close>). For a list of strings and \<^verbatim>\<open>indent=2\<close> the pieces are: \<^verbatim>\<open>[]\<close> alone
  for the empty list; otherwise the first name behind the bracket, a line feed and two
  spaces, every further name behind a comma, a line feed and two spaces, then a line
  feed, then the closing bracket.
\<close>

definition json_chunks :: "string list \<Rightarrow> string list" where
  "json_chunks xs =
     (case xs of
        [] \<Rightarrow> [''[]'']
      | x # rest \<Rightarrow>
          ([CHR ''['', CHR 0x0A] @ ''  '' @ json_string x)
          # map (\<lambda>y. [CHR '','', CHR 0x0A] @ ''  '' @ json_string y) rest
          @ [[CHR 0x0A], '']''])"

text \<open>
  \<^verbatim>\<open>f.write(chunk)\<close> encodes the piece and raises \<^verbatim>\<open>UnicodeEncodeError\<close> when it cannot;
  nothing of that piece is written, and the pieces written before it are in the file
  when the \<^verbatim>\<open>with\<close> block closes it. The result is the exception, if any, and the bytes
  of the file (line feeds as they are, as on POSIX).
\<close>

fun write_chunks :: "string \<Rightarrow> string list \<Rightarrow> error option \<times> string" where
  "write_chunks file [] = (None, file)"
| "write_chunks file (chunk # rest) =
     (if utf8_valid chunk then write_chunks (file @ chunk) rest
      else (Some UnicodeEncodeError, file))"

definition json_dump_indent2 :: "string list \<Rightarrow> error option \<times> string" where
  "json_dump_indent2 xs = write_chunks [] (json_chunks xs)"

text \<open>What each script does to its file (\<^verbatim>\<open>arquivos.json\<close>, \<^verbatim>\<open>modelos.json\<close>): the exception
  that ends \<^verbatim>\<open>main\<close>, if any, and the content of the file.\<close>

definition arquivos_json :: "(string \<times> node) list \<Rightarrow> error option \<times> string" where
  "arquivos_json pasta = json_dump_indent2 (listar_arquivos pasta)"

definition modelos_json :: "(string \<times> node) list \<Rightarrow> error option \<times> string" where
  "modelos_json pasta = json_dump_indent2 (listar_glb pasta)"

section \<open>Notions the properties speak in\<close>






subsection \<open>What a reader of the listing finds\<close>

text \<open>
  The characters the encoder escapes and the bytes beyond ASCII. \<open>json_lines\<close> is the
  layout the specification calls human-readable: the JSON strings of the names, each on
  a line of its own behind two spaces, with a comma behind each but the last, between a
  line with the opening and a line with the closing bracket.
\<close>

definition needs_escape :: "char \<Rightarrow> bool" where
  "needs_escape c = (c = CHR 0x22 \<or> c = CHR 0x5C \<or> (of_char c :: nat) < 32)"

definition non_ascii :: "char \<Rightarrow> bool" where
  "non_ascii c = (128 \<le> (of_char c :: nat))"

fun join_with :: "string \<Rightarrow> string list \<Rightarrow> string" where
  "join_with sep [] = []"
| "join_with sep [x] = x"
| "join_with sep (x # y # ys) = x @ sep @ join_with sep (y # ys)"

definition json_lines :: "string list \<Rightarrow> string" where
  "json_lines xs =
     (if xs = [] then ''[]''
      else [CHR ''['', CHR 0x0A] @ join_with [CHR '','', CHR 0x0A] (map (\<lambda>x. ''  '' @ json_string x) xs)
           @ [CHR 0x0A, CHR '']''])"

text \<open>
  A reader of JSON texts that are arrays of strings, after RFC 8259: blanks around the
  brackets, the strings and the commas; in a string every character from 0x20 on but
  the quote and the backslash stands for itself, a backslash is followed by one of
  \<^verbatim>\<open>" \ / b f n r t\<close> or by \<^verbatim>\<open>u\<close> and four hexadecimal digits (the reader gives the
  character its UTF-8 bytes; it refuses the half of a surrogate pair), and a control
  character is not allowed. \<open>read_string\<close> reads from behind the opening quote and
  returns the string with the text behind the closing quote.
\<close>

definition is_ws :: "char \<Rightarrow> bool" where
  "is_ws c = (c = CHR 0x20 \<or> c = CHR 0x09 \<or> c = CHR 0x0A \<or> c = CHR 0x0D)"

definition skip_ws :: "string \<Rightarrow> string" where
  "skip_ws s = dropWhile is_ws s"

definition hex_value :: "char \<Rightarrow> nat option" where
  "hex_value c =
     (if between 0x30 c 0x39 then Some (of_char c - 0x30)
      else if between 0x61 c 0x66 then Some (of_char c - 0x57)
      else if between 0x41 c 0x46 then Some (of_char c - 0x37)
      else None)"

definition hex4 :: "char \<Rightarrow> char \<Rightarrow> char \<Rightarrow> char \<Rightarrow> nat option" where
  "hex4 a b c d =
     (case (hex_value a, hex_value b, hex_value c, hex_value d) of
        (Some k, Some l, Some m, Some n) \<Rightarrow> Some (4096 * k + 256 * l + 16 * m + n)
      | _ \<Rightarrow> None)"

definition unescape :: "char \<Rightarrow> char option" where
  "unescape e =
     (if e = CHR 0x22 \<or> e = CHR 0x5C \<or> e = CHR ''/'' then Some e
      else if e = CHR ''b'' then Some (CHR 0x08)
      else if e = CHR ''f'' then Some (CHR 0x0C)
      else if e = CHR ''n'' then Some (CHR 0x0A)
      else if e = CHR ''r'' then Some (CHR 0x0D)
      else if e = CHR ''t'' then Some (CHR 0x09)
      else None)"

definition utf8_encode :: "nat \<Rightarrow> string" where
  "utf8_encode n =
     (if n < 0x80 then [char_of n]
      else if n < 0x800 then [char_of (0xC0 + n div 64), char_of (0x80 + n mod 64)]
      else [char_of (0xE0 + n div 4096), char_of (0x80 + n div 64 mod 64), char_of (0x80 + n mod 64)])"

fun read_string :: "string \<Rightarrow> (string \<times> string) option" where
  "read_string [] = None"
| "read_string (c # r) =
     (if c = CHR 0x22 then Some ([], r)
      else if c = CHR 0x5C then
        (case r of
           [] \<Rightarrow> None
         | e # r1 \<Rightarrow>
             if e = CHR ''u'' then
               (case r1 of
                  h1 # h2 # h3 # h4 # r2 \<Rightarrow>
                    (case hex4 h1 h2 h3 h4 of
                       None \<Rightarrow> None
                     | Some n \<Rightarrow>
                         if 0xD800 \<le> n \<and> n \<le> 0xDFFF then None
                         else map_option (\<lambda>(v, t). (utf8_encode n @ v, t)) (read_string r2))
                | _ \<Rightarrow> None)
             else
               (case unescape e of
                  None \<Rightarrow> None
                | Some d \<Rightarrow> map_option (\<lambda>(v, t). (d # v, t)) (read_string r1)))
      else if (of_char c :: nat) < 0x20 then None
      else map_option (\<lambda>(v, t). (c # v, t)) (read_string r))"

text \<open>\<open>read_items\<close> reads from the opening quote of a string to the closing bracket of
  the array.\<close>

function read_items :: "string \<Rightarrow> (string list \<times> string) option" where
  "read_items s =
     (case s of
        [] \<Rightarrow> None
      | q # r \<Rightarrow>
          if q \<noteq> CHR 0x22 then None
          else
            (case read_string r of
               None \<Rightarrow> None
             | Some (v, r1) \<Rightarrow>
                 (case skip_ws r1 of
                    [] \<Rightarrow> None
                  | d # r2 \<Rightarrow>
                      if d = CHR '']'' then Some ([v], r2)
                      else if d = CHR '','' then
                        map_option (\<lambda>(vs, t). (v # vs, t)) (read_items (skip_ws r2))
                      else None)))"
  by pat_completeness auto
termination
proof (relation "measure length", goal_cases)
  case 1
  show ?case by simp
next
  case (2 s q r x2 v r1 d r2)
  have sh: "read_string u = Some (w, t) \<Longrightarrow> length t \<le> length u" for u w t
  proof (induction u arbitrary: w t rule: read_string.induct)
    case 1
    then show ?case by simp
  next
    case (2 c r)
    show ?case
    proof (cases "c = CHR 0x22 \<or> c = CHR 0x5C")
      case False
      with "2.prems" obtain w' where "read_string r = Some (w', t)" "\<not> (of_char c :: nat) < 0x20"
        by (auto split: if_splits)
      then have "length t \<le> length r" using False "2.IH"(3) by auto
      then show ?thesis by simp
    next
      case True
      show ?thesis
      proof (cases "c = CHR 0x22")
        case True
        with "2.prems" show ?thesis by simp
      next
        case False
        with True have c: "c = CHR 0x5C" by simp
        with "2.prems" obtain e r1 where r: "r = e # r1" by (cases r) auto
        show ?thesis
        proof (cases "e = CHR ''u''")
          case False
          with c r "2.prems" obtain d w' where "unescape e = Some d" "read_string r1 = Some (w', t)"
            by (auto split: option.splits)
          then have "length t \<le> length r1" using c r False "2.IH"(2) by auto
          with r show ?thesis by simp
        next
          case True
          with c r "2.prems" obtain h1 h2 h3 h4 r2 n w' where
            h: "r1 = h1 # h2 # h3 # h4 # r2" "hex4 h1 h2 h3 h4 = Some n"
              "\<not> (0xD800 \<le> n \<and> n \<le> 0xDFFF)" "read_string r2 = Some (w', t)"
            by (auto split: list.splits option.splits if_splits)
          then have "length t \<le> length r2" using c r True "2.IH"(1) by auto
          with r h show ?thesis by simp
        qed
      qed
    qed
  qed
  from 2 have "read_string r = Some (v, r1)" by simp
  then have "length r1 \<le> length r" by (rule sh)
  moreover from 2 have "length (d # r2) \<le> length r1"
    unfolding skip_ws_def by (metis length_dropWhile_le)
  moreover have "length (skip_ws r2) \<le> length r2"
    unfolding skip_ws_def by (rule length_dropWhile_le)
  ultimately have "length (skip_ws r2) < length s" using 2 by simp
  then show ?case by simp
qed

definition json_loads :: "string \<Rightarrow> string list option" where
  "json_loads s =
     (case skip_ws s of
        [] \<Rightarrow> None
      | b # r \<Rightarrow>
          if b \<noteq> CHR ''['' then None
          else
            (case skip_ws r of
               [] \<Rightarrow> None
             | c # r1 \<Rightarrow>
                 if c = CHR '']'' then (if skip_ws r1 = [] then Some [] else None)
                 else
                   (case read_items (c # r1) of
                      None \<Rightarrow> None
                    | Some (vs, t) \<Rightarrow> if skip_ws t = [] then Some vs else None)))"

text \<open>
  \<open>json_written names result\<close>: the script has ended without an exception and its file
  is a JSON array of the names, in their order; it is well-formed UTF-8; its bytes
  beyond ASCII are those of the names, so no character has been escaped to \<^verbatim>\<open>\u....\<close>; the
  text is laid out on lines.
\<close>

definition json_written :: "string list \<Rightarrow> error option \<times> string \<Rightarrow> bool" where
  "json_written names result =
     (fst result = None
      \<and> json_loads (snd result) = Some names
      \<and> utf8_valid (snd result)
      \<and> filter non_ascii (snd result) = concat (map (filter non_ascii) names)
      \<and> snd result = json_lines names)"

section \<open>What discovery is to find\<close>

text \<open>The target patterns, and the entries below the assets root, outside the backup
  subtree, whose name fits a pattern.\<close>

definition is_optimized_name :: "string \<Rightarrow> bool" where
  "is_optimized_name name = (suffix ''-optimized.glb'' name \<or> suffix ''-optimized.gltf'' name)"

definition is_model_name :: "string \<Rightarrow> bool" where
  "is_model_name name = (suffix ''.glb'' name \<or> suffix ''.gltf'' name)"

definition entries_named :: "world \<Rightarrow> (string \<Rightarrow> bool) \<Rightarrow> path set" where
  "entries_named w P =
     {p. strict_prefix ASSETS_DIR p \<and> path_exists w p \<and> \<not> strict_prefix BACKUP_DIR p \<and> P (last p)}"



section \<open>Worlds to run the scripts on\<close>

text \<open>The scenario of the specification: \<^verbatim>\<open>car.glb\<close> and \<^verbatim>\<open>car-optimized.glb\<close> in the
  assets root.\<close>

definition car_world :: world where
  "car_world =
     \<lparr>tree = Dir [(''public'', Dir [(''assets'',
         Dir [(''car-optimized.glb'', File ''small''), (''car.glb'', File ''large file'')])])],
      locked = []\<rparr>"

text \<open>A directory for the listing scripts: names in upper and mixed case, a directory
  whose name ends in \<^verbatim>\<open>.Glb\<close>, and a name with an e acute (two bytes in UTF-8).\<close>

definition models_dir :: "(string \<times> node) list" where
  "models_dir =
     [(''kart.GLB'', File ''k''), (''b.Glb'', Dir [(''inner.glb'', File ''i'')]),
      (''caf'' @ [CHR 0xC3, CHR 0xA9] @ ''.glb'', File ''c''), (''notes.txt'', File ''n''),
      (''a.glb'', File ''a'')]"

text \<open>Two more: one with a quote, a backslash and control characters in its names, and
  one with a name from a Latin-1 system, whose byte 0xE9 (e acute there) is not UTF-8.\<close>

definition quoted_dir :: "(string \<times> node) list" where
  "quoted_dir =
     [([CHR ''a'', CHR 0x22, CHR ''b''] @ ''.glb'', File ''q''),
      ([CHR ''c'', CHR 0x5C, CHR ''d''] @ ''.GLB'', File ''b''),
      ([CHR 0x1F, CHR 0x09] @ ''.glb'', File ''t''),
      (''caf'' @ [CHR 0xC3, CHR 0xA9] @ ''.glb'', File ''c'')]"

definition latin1_dir :: "(string \<times> node) list" where
  "latin1_dir = [(''caf'' @ [CHR 0xE9] @ ''.glb'', File ''c''), (''a.glb'', File ''a'')]"

text \<open>A fuller assets root: a backup subtree that holds a file with the marker, a
  subdirectory, and a directory whose own name ends in \<^verbatim>\<open>-optimized.glb\<close>.\<close>

definition garage_world :: world where
  "garage_world =
     \<lparr>tree = Dir [(''public'', Dir [(''assets'',
         Dir [(''tracks'', Dir [(''loop.gltf'', File ''loop''), (''loop-optimized.gltf'', File ''lo'')]),
              (''pack-optimized.glb'', Dir [(''readme.txt'', File ''r'')]),
              (''originals'', Dir [(''old-optimized.glb'', File ''old'')]),
              (''car-optimized.glb'', File ''small''),
              (''car.glb'', File ''large file'')])])],
      locked = []\<rparr>"

text \<open>Two optimisers: one that writes the first half of a regular file and fails on
  anything else, and one that fails on every file and writes nothing.\<close>

definition halving_tool :: "path \<Rightarrow> node option \<Rightarrow> tool_result" where
  "halving_tool input_path n =
     (case n of
        Some (File c) \<Rightarrow> \<lparr>returncode_ok = True, written = Some (take (length c div 2) c)\<rparr>
      | _ \<Rightarrow> \<lparr>returncode_ok = False, written = None\<rparr>)"

definition timeout_tool :: "path \<Rightarrow> node option \<Rightarrow> tool_result" where
  "timeout_tool input_path n = \<lparr>returncode_ok = False, written = None\<rparr>"

definition halving_env :: env where
  "halving_env = \<lparr>optimizer = halving_tool, installed = True, install_ok = True\<rparr>"

definition timeout_env :: env where
  "timeout_env = \<lparr>optimizer = timeout_tool, installed = True, install_ok = True\<rparr>"

text \<open>Worlds in which the operating system refuses an operation: the backup path of
  \<^verbatim>\<open>a.glb\<close> is closed (a read-only backup directory); a directory has the name the
  optimiser's temporary output of \<^verbatim>\<open>track.glb\<close> would take.\<close>

definition jammed_world :: world where
  "jammed_world =
     \<lparr>tree = Dir [(''public'', Dir [(''assets'',
         Dir [(''a.glb'', File ''aaaaaaaa''), (''b.glb'', File ''bbbbbbbb'')])])],
      locked = [[''public'', ''assets'', ''originals'', ''a.glb'']]\<rparr>"

definition jammed_fix_world :: world where
  "jammed_fix_world =
     \<lparr>tree = Dir [(''public'', Dir [(''assets'',
         Dir [(''a-optimized.glb'', File ''aaaa''), (''a.glb'', File ''aaaaaaaa''),
              (''b-optimized.glb'', File ''bbbb'')])])],
      locked = [[''public'', ''assets'', ''originals'', ''a.glb'']]\<rparr>"

definition stale_world :: world where
  "stale_world =
     \<lparr>tree = Dir [(''public'', Dir [(''assets'',
         Dir [(''track.glb'', File ''track''), (''track-temp-optimized.glb'', Dir []),
              (''zebra.glb'', File ''zebra'')])])],
      locked = []\<rparr>"




section \<open>Properties of the file system\<close>

declare path_mkdir.simps [simp del]
declare str_replace.simps [simp del]
declare strip_left.simps [simp del]

subsection \<open>What a lookup finds after a change\<close>





lemma walk_aux:
  "(p \<in> set (walk t)) = (p \<noteq> [] \<and> lookup t p \<noteq> None)"
  "(p \<in> set (walk_es seen es)) =
     (case p of [] \<Rightarrow> False | x # r \<Rightarrow> x \<notin> set seen \<and> lookup_es es x r \<noteq> None)"
proof (induction t and seen es arbitrary: p and p rule: walk_walk_es.induct)
  case (1 c)
  show ?case by (cases p) auto
next
  case (2 es)
  then show ?case by (cases p) auto
next
  case (3 seen)
  show ?case by (cases p) auto
next
  case (4 seen x c es)
  show ?case
  proof (cases p)
    case Nil
    with 4 show ?thesis by auto
  next
    case (Cons y r)
    with 4 show ?thesis by (cases r) auto
  qed
qed

lemma walk_distinct_aux:
  "distinct (walk t)"
  "distinct (walk_es seen es)"
proof (induction t and seen es rule: walk_walk_es.induct)
  case (4 seen x c es)
  then show ?case by (auto simp: distinct_map walk_aux)
qed auto




lemma walk_set: "set (walk t) = {p. p \<noteq> [] \<and> lookup t p \<noteq> None}"
  using walk_aux(1) by blast

lemma walk_distinct: "distinct (walk t)"
  by (rule walk_distinct_aux(1))





section \<open>The name without the marker (C4)\<close>

text \<open>
  C4 says that the destination of a discovered file is its own name with exactly the
  final \<^verbatim>\<open>-optimized\<close> of the stem removed and the rest of the stem unchanged.
  \<^verbatim>\<open>get_original_name\<close> calls \<^verbatim>\<open>stem.replace("-optimized", "")\<close>, which removes every
  occurrence: the discovered file \<^verbatim>\<open>a-optimized-b-optimized.glb\<close> is sent to \<^verbatim>\<open>a-b.glb\<close>,
  not to \<^verbatim>\<open>a-optimized-b.glb\<close>.
\<close>

theorem get_original_name_strips_every_marker:
  "get_original_name [''public'', ''assets'', ''a-optimized-b-optimized.glb'']
     = [''public'', ''assets'', ''a-b.glb'']"
  by code_simp

section \<open>Declining the confirmation (C5)\<close>

lemma fix_preview_same: "fix_preview w files = w"
  by (induction files arbitrary: w) (auto simp: fix_process_file_def Let_def)



text \<open>An answer between blanks that are not ASCII is read as the answer: \<^verbatim>\<open>strip\<close> removes
  a no-break space (U+00A0) and an ideographic space (U+3000) as it removes a space.\<close>

lemma answer_between_blanks:
  "str_lower (str_strip ([CHR 0xE3, CHR 0x80, CHR 0x80] @ ''Y'' @ [CHR 0xC2, CHR 0xA0])) = ''y''
   \<and> lookup (tree (final (fix_main car_world (Some (''y'' @ [CHR 0xC2, CHR 0xA0])))))
        [''public'', ''assets'', ''car.glb''] = Some (File ''small'')"
proof -
  have a: "str_lower (str_strip ([CHR 0xE3, CHR 0x80, CHR 0x80] @ ''Y'' @ [CHR 0xC2, CHR 0xA0])) = ''y''"
    by code_simp
  have b: "lookup (tree (final (fix_main car_world (Some (''y'' @ [CHR 0xC2, CHR 0xA0])))))
        [''public'', ''assets'', ''car.glb''] = Some (File ''small'')"
    by code_simp
  from a b show ?thesis by (rule conjI)
qed

section \<open>The listing scripts (C9, C10)\<close>

declare read_items.simps [simp del]

lemma hex_digit_code:
  "n < 16 \<Longrightarrow> (of_char (hex_digit n) :: nat) = (if n < 10 then 48 + n else 87 + n)"
  by (simp add: hex_digit_def)

lemma hex_value_digit: "n < 16 \<Longrightarrow> hex_value (hex_digit n) = Some n"
  by (auto simp: hex_value_def between_def hex_digit_code)

lemma hex_digit_ascii: "n < 16 \<Longrightarrow> \<not> non_ascii (hex_digit n)"
  by (simp add: hex_digit_code non_ascii_def)

lemma hex4_control:
  assumes "n < 32"
  shows "hex4 (CHR ''0'') (CHR ''0'') (hex_digit (n div 16)) (hex_digit (n mod 16)) = Some n"
proof -
  have z: "hex_value (CHR ''0'') = Some 0" by (simp add: hex_value_def between_def)
  from assms have "n div 16 < 16" by simp
  then have a: "hex_value (hex_digit (n div 16)) = Some (n div 16)" by (rule hex_value_digit)
  have b: "hex_value (hex_digit (n mod 16)) = Some (n mod 16)" by (rule hex_value_digit) simp
  show ?thesis by (simp add: hex4_def z a b)
qed

text \<open>Reading back one escaped character.\<close>

lemma read_escaped_char:
  "read_string (json_escape_char c @ rest) = map_option (\<lambda>(v, t). (c # v, t)) (read_string rest)"
proof -
  consider (quote) "c = CHR 0x22" | (bs) "c = CHR 0x5C" | (lf) "c = CHR 0x0A" | (cr) "c = CHR 0x0D"
    | (tab) "c = CHR 0x09" | (b) "c = CHR 0x08" | (ff) "c = CHR 0x0C"
    | (ctl) "c \<noteq> CHR 0x22" "c \<noteq> CHR 0x5C" "c \<noteq> CHR 0x0A" "c \<noteq> CHR 0x0D" "c \<noteq> CHR 0x09"
        "c \<noteq> CHR 0x08" "c \<noteq> CHR 0x0C" "(of_char c :: nat) < 32"
    | (plain) "c \<noteq> CHR 0x22" "c \<noteq> CHR 0x5C" "\<not> (of_char c :: nat) < 32"
    by blast
  then show ?thesis
  proof cases
    case quote
    then show ?thesis by (simp add: json_escape_char_def unescape_def)
  next
    case bs
    then show ?thesis by (simp add: json_escape_char_def unescape_def)
  next
    case lf
    then show ?thesis by (simp add: json_escape_char_def unescape_def)
  next
    case cr
    then show ?thesis by (simp add: json_escape_char_def unescape_def)
  next
    case tab
    then show ?thesis by (simp add: json_escape_char_def unescape_def)
  next
    case b
    then show ?thesis by (simp add: json_escape_char_def unescape_def)
  next
    case ff
    then show ?thesis by (simp add: json_escape_char_def unescape_def)
  next
    case ctl
    define n where "n = (of_char c :: nat)"
    from ctl have n: "n < 32" by (simp add: n_def)
    have e: "json_escape_char c
        = [CHR 0x5C, CHR ''u'', CHR ''0'', CHR ''0'', hex_digit (n div 16), hex_digit (n mod 16)]"
      using ctl by (simp add: json_escape_char_def n_def)
    have u: "utf8_encode n = [c]" using n by (simp add: utf8_encode_def n_def)
    show ?thesis
      unfolding e using hex4_control [OF n] n u
      by (simp add: case_prod_beta)
  next
    case plain
    then have "c \<noteq> CHR 0x0A" "c \<noteq> CHR 0x0D" "c \<noteq> CHR 0x09" "c \<noteq> CHR 0x08" "c \<noteq> CHR 0x0C"
      by auto
    with plain show ?thesis by (simp add: json_escape_char_def)
  qed
qed

lemma read_escaped:
  "read_string (concat (map json_escape_char x) @ CHR 0x22 # rest) = Some (x, rest)"
proof (induction x)
  case Nil
  show ?case by simp
next
  case (Cons c x)
  have "read_string (concat (map json_escape_char (c # x)) @ CHR 0x22 # rest)
      = read_string (json_escape_char c @ (concat (map json_escape_char x) @ CHR 0x22 # rest))"
    by simp
  also have "\<dots> = Some (c # x, rest)"
    unfolding read_escaped_char Cons.IH by simp
  finally show ?case .
qed

lemma skip_ws_plain:
  "\<not> is_ws c \<Longrightarrow> skip_ws (c # r) = c # r"
  "skip_ws (CHR 0x0A # r) = skip_ws r"
  "skip_ws (CHR 0x20 # r) = skip_ws r"
  "skip_ws [] = []"
  by (simp_all add: skip_ws_def is_ws_def)

lemma not_ws: "\<not> is_ws (CHR 0x22)" "\<not> is_ws (CHR '']'')" "\<not> is_ws (CHR '','')" "\<not> is_ws (CHR ''['')"
  by (simp_all add: is_ws_def)

text \<open>Reading back the names from the first quote on.\<close>

lemma read_items_last:
  "read_items (json_string x @ CHR 0x0A # CHR '']'' # rest) = Some ([x], rest)"
  by (subst read_items.simps) (simp add: json_string_def read_escaped skip_ws_plain not_ws)

lemma read_items_more:
  "read_items (json_string x @ CHR '','' # CHR 0x0A # CHR 0x20 # CHR 0x20 # CHR 0x22 # t)
     = map_option (\<lambda>(vs, u). (x # vs, u)) (read_items (CHR 0x22 # t))"
  by (subst read_items.simps) (simp add: json_string_def read_escaped skip_ws_plain not_ws)

lemma json_string_quote: "\<exists>t. json_string x = CHR 0x22 # t"
  by (simp add: json_string_def)

lemma read_items_lines:
  "xs \<noteq> [] \<Longrightarrow>
   read_items (join_with [CHR '','', CHR 0x0A, CHR 0x20, CHR 0x20] (map json_string xs)
               @ [CHR 0x0A, CHR '']''])
     = Some (xs, [])"
proof (induction xs rule: induct_list012)
  case 1
  then show ?case by simp
next
  case (2 x)
  show ?case using read_items_last [of x "[]"] by simp
next
  case (3 x y zs)
  let ?rest = "join_with [CHR '','', CHR 0x0A, CHR 0x20, CHR 0x20] (map json_string (y # zs))"
  obtain t where t: "?rest = CHR 0x22 # t"
    using json_string_quote [of y] by (cases zs) auto
  have "read_items (json_string x @ CHR '','' # CHR 0x0A # CHR 0x20 # CHR 0x20
          # CHR 0x22 # (t @ [CHR 0x0A, CHR '']'']))
      = map_option (\<lambda>(vs, u). (x # vs, u)) (read_items (CHR 0x22 # (t @ [CHR 0x0A, CHR '']''])))"
    by (rule read_items_more)
  also have "read_items (CHR 0x22 # (t @ [CHR 0x0A, CHR '']''])) = Some (y # zs, [])"
    using "3.IH"(2) t by simp
  finally show ?case using t by simp
qed

lemma indent_join:
  "xs \<noteq> [] \<Longrightarrow>
   join_with [CHR '','', CHR 0x0A] (map (\<lambda>x. ''  '' @ json_string x) xs)
     = ''  '' @ join_with [CHR '','', CHR 0x0A, CHR 0x20, CHR 0x20] (map json_string xs)"
  by (induction xs rule: induct_list012) simp_all

lemma json_loads_lines: "json_loads (json_lines xs) = Some xs"
proof (cases "xs = []")
  case True
  then show ?thesis
    by (simp add: json_lines_def json_loads_def skip_ws_plain not_ws)
next
  case False
  let ?body = "join_with [CHR '','', CHR 0x0A, CHR 0x20, CHR 0x20] (map json_string xs)"
  from False obtain x ys where xs: "xs = x # ys" by (cases xs) auto
  obtain t where t: "?body = CHR 0x22 # t"
    unfolding xs using json_string_quote [of x] by (cases ys) auto
  have "json_lines xs = [CHR ''['', CHR 0x0A] @ (''  '' @ ?body) @ [CHR 0x0A, CHR '']'']"
    using False by (simp only: json_lines_def indent_join [OF False] if_False)
  then have l: "json_lines xs
      = CHR ''['' # CHR 0x0A # CHR 0x20 # CHR 0x20 # CHR 0x22 # (t @ [CHR 0x0A, CHR '']''])"
    by (simp add: t)
  have ri: "read_items (CHR 0x22 # (t @ [CHR 0x0A, CHR '']''])) = Some (xs, [])"
    using read_items_lines [OF False] t by simp
  show ?thesis
    unfolding l json_loads_def
    by (simp add: skip_ws_plain not_ws ri)
qed


text \<open>The pieces put together are the layout.\<close>

lemma join_with_Cons:
  "join_with sep (map f (x # rest)) = f x @ concat (map (\<lambda>y. sep @ f y) rest)"
  by (induction rest arbitrary: x) simp_all

lemma concat_json_chunks: "concat (json_chunks xs) = json_lines xs"
proof (cases xs)
  case Nil
  then show ?thesis by (simp add: json_chunks_def json_lines_def)
next
  case (Cons x rest)
  show ?thesis
    unfolding Cons json_chunks_def json_lines_def join_with_Cons by simp
qed

text \<open>Well-formed pieces are all written.\<close>

lemma write_chunks_valid:
  "\<forall>c \<in> set cs. utf8_valid c \<Longrightarrow> write_chunks sofar cs = (None, sofar @ concat cs)"
  by (induction cs arbitrary: sofar) simp_all

text \<open>Well-formed texts: ASCII in front of one, two of them in a row, and the JSON
  string of one.\<close>

lemma utf8_valid_ascii_prefix:
  "\<forall>c \<in> set e. between 0x00 c 0x7F \<Longrightarrow> utf8_valid (e @ r) = utf8_valid r"
  by (induction e) simp_all

lemma utf8_valid_Cons1:
  "between 0x00 a 0x7F \<Longrightarrow> utf8_valid (a # r) = utf8_valid r"
  by simp

lemma utf8_valid_Cons2:
  "\<not> between 0x00 a 0x7F \<Longrightarrow> between 0xC2 a 0xDF \<Longrightarrow>
   utf8_valid (a # r) = (\<exists>b r1. r = b # r1 \<and> between 0x80 b 0xBF \<and> utf8_valid r1)"
  by (cases r) simp_all

lemma utf8_valid_Cons3:
  assumes "\<not> between 0x00 a 0x7F" "\<not> between 0xC2 a 0xDF" "between 0xE0 a 0xEF"
  shows "utf8_valid (a # r) =
     (\<exists>b c r2. r = b # c # r2
        \<and> between (if a = CHR 0xE0 then 0xA0 else 0x80) b (if a = CHR 0xED then 0x9F else 0xBF)
        \<and> between 0x80 c 0xBF \<and> utf8_valid r2)"
proof (cases r)
  case Nil
  with assms show ?thesis by simp
next
  case (Cons b r1)
  with assms show ?thesis by (cases r1) simp_all
qed

lemma utf8_valid_Cons4:
  assumes "\<not> between 0x00 a 0x7F" "\<not> between 0xC2 a 0xDF" "\<not> between 0xE0 a 0xEF"
  shows "utf8_valid (a # r) =
     (between 0xF0 a 0xF4 \<and>
      (\<exists>b c d r3. r = b # c # d # r3
        \<and> between (if a = CHR 0xF0 then 0x90 else 0x80) b (if a = CHR 0xF4 then 0x8F else 0xBF)
        \<and> between 0x80 c 0xBF \<and> between 0x80 d 0xBF \<and> utf8_valid r3))"
proof (cases r)
  case Nil
  with assms show ?thesis by simp
next
  case (Cons b r1)
  note r = this
  show ?thesis
  proof (cases r1)
    case Nil
    with assms r show ?thesis by simp
  next
    case (Cons c r2)
    with assms r show ?thesis by (cases r2) simp_all
  qed
qed

declare utf8_valid.simps(2) [simp del]

lemma utf8_valid_append: "utf8_valid x \<Longrightarrow> utf8_valid y \<Longrightarrow> utf8_valid (x @ y)"
proof (induction x rule: utf8_valid.induct)
  case 1
  then show ?case by simp
next
  case (2 a r)
  consider (one) "between 0x00 a 0x7F"
    | (two) "\<not> between 0x00 a 0x7F" "between 0xC2 a 0xDF"
    | (three) "\<not> between 0x00 a 0x7F" "\<not> between 0xC2 a 0xDF" "between 0xE0 a 0xEF"
    | (four) "\<not> between 0x00 a 0x7F" "\<not> between 0xC2 a 0xDF" "\<not> between 0xE0 a 0xEF"
    by blast
  then show ?case
  proof cases
    case one
    with 2 show ?thesis by (simp add: utf8_valid_Cons1)
  next
    case two
    with "2.prems" obtain b r1 where r: "r = b # r1" "between 0x80 b 0xBF" "utf8_valid r1"
      by (auto simp: utf8_valid_Cons2)
    with two "2.IH"(2) "2.prems"(2) have "utf8_valid (r1 @ y)" by simp
    with two r show ?thesis by (simp add: utf8_valid_Cons2)
  next
    case three
    with "2.prems" obtain b c r2 where r: "r = b # c # r2"
      "between (if a = CHR 0xE0 then 0xA0 else 0x80) b (if a = CHR 0xED then 0x9F else 0xBF)"
      "between 0x80 c 0xBF" "utf8_valid r2"
      by (auto simp: utf8_valid_Cons3)
    with three "2.IH"(3) "2.prems"(2) have "utf8_valid (r2 @ y)" by simp
    with three r show ?thesis by (simp add: utf8_valid_Cons3)
  next
    case four
    with "2.prems" obtain b c d r3 where r: "between 0xF0 a 0xF4" "r = b # c # d # r3"
      "between (if a = CHR 0xF0 then 0x90 else 0x80) b (if a = CHR 0xF4 then 0x8F else 0xBF)"
      "between 0x80 c 0xBF" "between 0x80 d 0xBF" "utf8_valid r3"
      by (auto simp: utf8_valid_Cons4)
    with four "2.IH"(4) "2.prems"(2) have "utf8_valid (r3 @ y)" by simp
    with four r show ?thesis by (simp add: utf8_valid_Cons4)
  qed
qed


text \<open>What escaping does to a character: an ASCII character gives ASCII characters, any
  other is copied.\<close>

lemma json_escape_char_plain: "\<not> needs_escape c \<Longrightarrow> json_escape_char c = [c]"
  by (auto simp: json_escape_char_def needs_escape_def)

lemma json_escape_char_ascii:
  assumes "between 0x00 c 0x7F"
  shows "\<forall>d \<in> set (json_escape_char c). between 0x00 d 0x7F"
proof -
  have h: "between 0x00 (hex_digit n) 0x7F" if "n < 16" for n
    using that by (simp add: between_def hex_digit_code)
  have "between 0x00 (hex_digit (of_char c div 16)) 0x7F" "between 0x00 (hex_digit (of_char c mod 16)) 0x7F"
    if "(of_char c :: nat) < 32"
    using that by (auto intro!: h)
  moreover have "between 0x00 (CHR 0x5C) 0x7F" "between 0x00 (CHR 0x22) 0x7F" "between 0x00 (CHR ''n'') 0x7F"
    "between 0x00 (CHR ''r'') 0x7F" "between 0x00 (CHR ''t'') 0x7F" "between 0x00 (CHR ''b'') 0x7F"
    "between 0x00 (CHR ''f'') 0x7F" "between 0x00 (CHR ''u'') 0x7F" "between 0x00 (CHR ''0'') 0x7F"
    by (simp_all add: between_def)
  ultimately show ?thesis using assms by (auto simp: json_escape_char_def)
qed

lemma beyond_ascii_plain: "\<not> between 0x00 c 0x7F \<Longrightarrow> json_escape_char c = [c]"
  "between 0x80 c 0xBF \<Longrightarrow> json_escape_char c = [c]"
  by (rule json_escape_char_plain; auto simp: needs_escape_def between_def)+

lemma utf8_valid_escaped:
  "utf8_valid x \<Longrightarrow> utf8_valid (concat (map json_escape_char x) @ y) = utf8_valid y"
proof (induction x rule: utf8_valid.induct)
  case 1
  then show ?case by simp
next
  case (2 a r)
  consider (one) "between 0x00 a 0x7F"
    | (two) "\<not> between 0x00 a 0x7F" "between 0xC2 a 0xDF"
    | (three) "\<not> between 0x00 a 0x7F" "\<not> between 0xC2 a 0xDF" "between 0xE0 a 0xEF"
    | (four) "\<not> between 0x00 a 0x7F" "\<not> between 0xC2 a 0xDF" "\<not> between 0xE0 a 0xEF"
    by blast
  then show ?case
  proof cases
    case one
    with 2 have "utf8_valid (concat (map json_escape_char r) @ y) = utf8_valid y"
      by (simp add: utf8_valid_Cons1)
    then show ?thesis
      using utf8_valid_ascii_prefix [OF json_escape_char_ascii [OF one]] by simp
  next
    case two
    with "2.prems" obtain b r1 where r: "r = b # r1" "between 0x80 b 0xBF" "utf8_valid r1"
      by (auto simp: utf8_valid_Cons2)
    with two "2.IH"(2) have "utf8_valid (concat (map json_escape_char r1) @ y) = utf8_valid y"
      by simp
    with two r show ?thesis by (simp add: utf8_valid_Cons2 beyond_ascii_plain)
  next
    case three
    with "2.prems" obtain b c r2 where r: "r = b # c # r2"
      "between (if a = CHR 0xE0 then 0xA0 else 0x80) b (if a = CHR 0xED then 0x9F else 0xBF)"
      "between 0x80 c 0xBF" "utf8_valid r2"
      by (auto simp: utf8_valid_Cons3)
    from r(2) have b: "between 0x80 b 0xBF" by (auto simp: between_def split: if_splits)
    from three r "2.IH"(3) have "utf8_valid (concat (map json_escape_char r2) @ y) = utf8_valid y"
      by simp
    with three r b show ?thesis by (simp add: utf8_valid_Cons3 beyond_ascii_plain)
  next
    case four
    with "2.prems" obtain b c d r3 where r: "between 0xF0 a 0xF4" "r = b # c # d # r3"
      "between (if a = CHR 0xF0 then 0x90 else 0x80) b (if a = CHR 0xF4 then 0x8F else 0xBF)"
      "between 0x80 c 0xBF" "between 0x80 d 0xBF" "utf8_valid r3"
      by (auto simp: utf8_valid_Cons4)
    from r(3) have b: "between 0x80 b 0xBF" by (auto simp: between_def split: if_splits)
    from four r "2.IH"(4) have "utf8_valid (concat (map json_escape_char r3) @ y) = utf8_valid y"
      by simp
    with four r b show ?thesis by (simp add: utf8_valid_Cons4 beyond_ascii_plain)
  qed
qed

lemma utf8_valid_json_string:
  assumes "utf8_valid x" "\<forall>c \<in> set e. between 0x00 c 0x7F"
  shows "utf8_valid (e @ json_string x)"
proof -
  have q: "between 0x00 (CHR 0x22) 0x7F" by (simp add: between_def)
  have "utf8_valid [CHR 0x22]" using q by (simp add: utf8_valid_Cons1)
  then have "utf8_valid (concat (map json_escape_char x) @ [CHR 0x22])"
    using utf8_valid_escaped [OF assms(1)] by simp
  then have "utf8_valid (json_string x)"
    using q by (simp add: json_string_def utf8_valid_Cons1)
  then show ?thesis using utf8_valid_ascii_prefix [OF assms(2)] by simp
qed

lemma json_chunks_valid:
  assumes "\<forall>n \<in> set xs. utf8_valid n"
  shows "\<forall>c \<in> set (json_chunks xs). utf8_valid c"
proof (cases xs)
  case Nil
  have "\<forall>c \<in> set ''[]''. between 0x00 c 0x7F" by (simp add: between_def)
  then have "utf8_valid (''[]'' @ [])" by (simp only: utf8_valid_ascii_prefix utf8_valid.simps)
  with Nil show ?thesis by (simp add: json_chunks_def)
next
  case (Cons x rest)
  have a: "\<forall>c \<in> set ([CHR ''['', CHR 0x0A] @ ''  ''). between 0x00 c 0x7F"
    "\<forall>c \<in> set ([CHR '','', CHR 0x0A] @ ''  ''). between 0x00 c 0x7F"
    "\<forall>c \<in> set [CHR 0x0A]. between 0x00 c 0x7F" "\<forall>c \<in> set '']''. between 0x00 c 0x7F"
    by (simp_all add: between_def)
  have 1: "utf8_valid (([CHR ''['', CHR 0x0A] @ ''  '') @ json_string x)"
    using assms Cons by (intro utf8_valid_json_string a) simp
  have 2: "utf8_valid (([CHR '','', CHR 0x0A] @ ''  '') @ json_string y)" if "y \<in> set rest" for y
    using assms Cons that by (intro utf8_valid_json_string a) simp
  have 3: "utf8_valid ([CHR 0x0A] @ [])" "utf8_valid ('']'' @ [])"
    using a(3,4) by (simp_all only: utf8_valid_ascii_prefix utf8_valid.simps)
  show ?thesis
    unfolding Cons json_chunks_def using 1 2 3 by auto
qed

lemma utf8_valid_concat: "\<forall>c \<in> set cs. utf8_valid c \<Longrightarrow> utf8_valid (concat cs)"
  by (induction cs) (simp_all add: utf8_valid_append)

text \<open>The bytes beyond ASCII of the layout are those of the names.\<close>

lemma filter_non_ascii_escape:
  "filter non_ascii (json_escape_char c) = (if non_ascii c then [c] else [])"
proof (cases "non_ascii c")
  case True
  then have "\<not> between 0x00 c 0x7F" by (simp add: non_ascii_def between_def)
  with True show ?thesis by (simp add: beyond_ascii_plain)
next
  case False
  then have "between 0x00 c 0x7F" by (simp add: non_ascii_def between_def)
  then have "\<forall>d \<in> set (json_escape_char c). \<not> non_ascii d"
    using json_escape_char_ascii by (fastforce simp: non_ascii_def between_def)
  with False show ?thesis by (simp add: filter_empty_conv)
qed

lemma filter_non_ascii_json_string:
  "filter non_ascii (json_string s) = filter non_ascii s"
proof -
  have "filter non_ascii (concat (map json_escape_char s)) = filter non_ascii s"
    by (induction s) (auto simp: filter_non_ascii_escape)
  then show ?thesis by (simp add: json_string_def non_ascii_def)
qed

lemma filter_join_with:
  "filter P sep = [] \<Longrightarrow> filter P (join_with sep xs) = concat (map (filter P) xs)"
  by (induction sep xs rule: join_with.induct) auto

lemma filter_non_ascii_lines:
  "filter non_ascii (json_lines xs) = concat (map (filter non_ascii) xs)"
proof -
  have "filter non_ascii [CHR '','', CHR 0x0A] = []" by (simp add: non_ascii_def)
  then have "filter non_ascii (join_with [CHR '','', CHR 0x0A] (map (\<lambda>x. ''  '' @ json_string x) xs))
     = concat (map (filter non_ascii) (map (\<lambda>x. ''  '' @ json_string x) xs))"
    by (rule filter_join_with)
  also have "\<dots> = concat (map (filter non_ascii) xs)"
  proof -
    have sp: "\<not> non_ascii (CHR '' '')" by (simp add: non_ascii_def)
    show ?thesis by (induction xs) (simp_all add: filter_non_ascii_json_string sp)
  qed
  finally show ?thesis by (auto simp: json_lines_def non_ascii_def)
qed

text \<open>A listing of well-formed names is written whole.\<close>

lemma json_dump_written:
  assumes "\<forall>n \<in> set xs. utf8_valid n"
  shows "json_written xs (json_dump_indent2 xs)"
proof -
  note v = json_chunks_valid [OF assms]
  have d: "json_dump_indent2 xs = (None, json_lines xs)"
    using write_chunks_valid [OF v, of "[]"] by (simp add: json_dump_indent2_def concat_json_chunks)
  have "utf8_valid (json_lines xs)"
    using utf8_valid_concat [OF v] by (simp add: concat_json_chunks)
  then show ?thesis
    by (simp add: json_written_def d json_loads_lines filter_non_ascii_lines)
qed

text \<open>
  C9, as the code has it. Both listing scripts list the names in sorted order. When
  every listed name is well-formed UTF-8, the script ends without an exception and its
  file is a JSON array of exactly these names in this order (a reader of JSON gets them
  back, whatever quotes, backslashes or control characters they hold), well-formed
  UTF-8, with the bytes beyond ASCII of the names and no others (nothing is escaped to
  \<^verbatim>\<open>\u....\<close>), laid out with one name on each line behind two spaces.
\<close>

theorem listing_json_written:
  "sorted (listar_arquivos pasta) \<and> sorted (listar_glb pasta)
   \<and> ((\<forall>nome \<in> set (listar_arquivos pasta). utf8_valid nome)
        \<longrightarrow> json_written (listar_arquivos pasta) (arquivos_json pasta))
   \<and> ((\<forall>nome \<in> set (listar_glb pasta). utf8_valid nome)
        \<longrightarrow> json_written (listar_glb pasta) (modelos_json pasta))"
proof -
  have "sorted (listar_arquivos pasta)" "sorted (listar_glb pasta)"
    by (simp_all add: listar_arquivos_def listar_glb_def)
  then show ?thesis
    unfolding arquivos_json_def modelos_json_def using json_dump_written by blast
qed

theorem listing_json_written_witness:
  "listar_glb quoted_dir
     = [[CHR 0x1F, CHR 0x09] @ ''.glb'', [CHR ''a'', CHR 0x22, CHR ''b''] @ ''.glb'',
        [CHR ''c'', CHR 0x5C, CHR ''d''] @ ''.GLB'', ''caf'' @ [CHR 0xC3, CHR 0xA9] @ ''.glb'']
   \<and> utf8_valid (''caf'' @ [CHR 0xC3, CHR 0xA9] @ ''.glb'')
   \<and> json_written (listar_glb quoted_dir) (modelos_json quoted_dir)
   \<and> json_loads (snd (modelos_json quoted_dir))
     = Some [[CHR 0x1F, CHR 0x09] @ ''.glb'', [CHR ''a'', CHR 0x22, CHR ''b''] @ ''.glb'',
        [CHR ''c'', CHR 0x5C, CHR ''d''] @ ''.GLB'', ''caf'' @ [CHR 0xC3, CHR 0xA9] @ ''.glb'']
   \<and> snd (modelos_json quoted_dir)
     = [CHR ''['', CHR 0x0A]
       @ ''  '' @ [CHR 0x22, CHR 0x5C] @ ''u001f'' @ [CHR 0x5C] @ ''t.glb'' @ [CHR 0x22, CHR '','', CHR 0x0A]
       @ ''  '' @ [CHR 0x22] @ ''a'' @ [CHR 0x5C, CHR 0x22] @ ''b.glb'' @ [CHR 0x22, CHR '','', CHR 0x0A]
       @ ''  '' @ [CHR 0x22] @ ''c'' @ [CHR 0x5C, CHR 0x5C] @ ''d.GLB'' @ [CHR 0x22, CHR '','', CHR 0x0A]
       @ ''  '' @ [CHR 0x22] @ ''caf'' @ [CHR 0xC3, CHR 0xA9] @ ''.glb'' @ [CHR 0x22, CHR 0x0A]
       @ '']''
   \<and> json_written (listar_arquivos models_dir) (arquivos_json models_dir)
   \<and> filter non_ascii (snd (arquivos_json models_dir)) = [CHR 0xC3, CHR 0xA9]"
proof -
  have a: "listar_glb quoted_dir
     = [[CHR 0x1F, CHR 0x09] @ ''.glb'', [CHR ''a'', CHR 0x22, CHR ''b''] @ ''.glb'',
        [CHR ''c'', CHR 0x5C, CHR ''d''] @ ''.GLB'', ''caf'' @ [CHR 0xC3, CHR 0xA9] @ ''.glb'']"
    by code_simp
  have b: "\<forall>nome \<in> set (listar_glb quoted_dir). utf8_valid nome"
    unfolding a by code_simp
  have c: "json_written (listar_glb quoted_dir) (modelos_json quoted_dir)"
    using listing_json_written [of quoted_dir] b by blast
  then have d: "json_loads (snd (modelos_json quoted_dir)) = Some (listar_glb quoted_dir)"
    unfolding json_written_def by blast
  have e: "snd (modelos_json quoted_dir)
     = [CHR ''['', CHR 0x0A]
       @ ''  '' @ [CHR 0x22, CHR 0x5C] @ ''u001f'' @ [CHR 0x5C] @ ''t.glb'' @ [CHR 0x22, CHR '','', CHR 0x0A]
       @ ''  '' @ [CHR 0x22] @ ''a'' @ [CHR 0x5C, CHR 0x22] @ ''b.glb'' @ [CHR 0x22, CHR '','', CHR 0x0A]
       @ ''  '' @ [CHR 0x22] @ ''c'' @ [CHR 0x5C, CHR 0x5C] @ ''d.GLB'' @ [CHR 0x22, CHR '','', CHR 0x0A]
       @ ''  '' @ [CHR 0x22] @ ''caf'' @ [CHR 0xC3, CHR 0xA9] @ ''.glb'' @ [CHR 0x22, CHR 0x0A]
       @ '']''"
    by code_simp
  have f: "listar_arquivos models_dir
      = [''a.glb'', ''caf'' @ [CHR 0xC3, CHR 0xA9] @ ''.glb'', ''kart.GLB'', ''notes.txt'']"
    by code_simp
  have g: "\<forall>nome \<in> set (listar_arquivos models_dir). utf8_valid nome"
    unfolding f by code_simp
  have h: "json_written (listar_arquivos models_dir) (arquivos_json models_dir)"
    using listing_json_written [of models_dir] g by blast
  have i: "concat (map (filter non_ascii)
      [''a.glb'', ''caf'' @ [CHR 0xC3, CHR 0xA9] @ ''.glb'', ''kart.GLB'', ''notes.txt'']) = [CHR 0xC3, CHR 0xA9]"
    by code_simp
  from h have j: "filter non_ascii (snd (arquivos_json models_dir)) = [CHR 0xC3, CHR 0xA9]"
    unfolding json_written_def f i by blast
  have k: "utf8_valid (''caf'' @ [CHR 0xC3, CHR 0xA9] @ ''.glb'')" by code_simp
  show ?thesis by (intro conjI a k c d [unfolded a] e h j)
qed

text \<open>
  C9 as it is written holds of every directory. A name that is not UTF-8 (here one from
  a Latin-1 system) is listed, and \<^verbatim>\<open>json.dump\<close> raises \<^verbatim>\<open>UnicodeEncodeError\<close> when it comes to
  write it: the script ends with the exception, and the file holds what was written
  before, which is no JSON text.
\<close>

theorem listing_cut_short_at_undecodable_name:
  "listar_glb latin1_dir = [''a.glb'', ''caf'' @ [CHR 0xE9] @ ''.glb'']
   \<and> listar_arquivos latin1_dir = [''a.glb'', ''caf'' @ [CHR 0xE9] @ ''.glb'']
   \<and> modelos_json latin1_dir
       = (Some UnicodeEncodeError, [CHR ''['', CHR 0x0A] @ ''  '' @ [CHR 0x22] @ ''a.glb'' @ [CHR 0x22])
   \<and> arquivos_json latin1_dir
       = (Some UnicodeEncodeError, [CHR ''['', CHR 0x0A] @ ''  '' @ [CHR 0x22] @ ''a.glb'' @ [CHR 0x22])
   \<and> json_loads (snd (modelos_json latin1_dir)) = None
   \<and> json_loads (snd (arquivos_json latin1_dir)) = None"
proof -
  have a: "listar_glb latin1_dir = [''a.glb'', ''caf'' @ [CHR 0xE9] @ ''.glb'']" by code_simp
  have b: "listar_arquivos latin1_dir = [''a.glb'', ''caf'' @ [CHR 0xE9] @ ''.glb'']" by code_simp
  have c: "modelos_json latin1_dir
       = (Some UnicodeEncodeError, [CHR ''['', CHR 0x0A] @ ''  '' @ [CHR 0x22] @ ''a.glb'' @ [CHR 0x22])"
    by code_simp
  have d: "arquivos_json latin1_dir
       = (Some UnicodeEncodeError, [CHR ''['', CHR 0x0A] @ ''  '' @ [CHR 0x22] @ ''a.glb'' @ [CHR 0x22])"
    by code_simp
  have e: "json_loads (snd (modelos_json latin1_dir)) = None" by code_simp
  have f: "json_loads (snd (arquivos_json latin1_dir)) = None" by code_simp
  show ?thesis by (intro conjI a b c d e f)
qed

text \<open>
  C10: the \<^verbatim>\<open>.glb\<close> listing holds exactly the names of the entries of the directory whose
  lowered name ends in \<^verbatim>\<open>.glb\<close>, whatever the entry is (file or directory) and without
  looking below it, in sorted order; the general listing holds exactly the names of the
  regular files.
\<close>

theorem listar_glb_exact:
  "set (listar_glb pasta) = {nome \<in> fst ` set pasta. suffix ''.glb'' (str_lower nome)}
   \<and> sorted (listar_glb pasta) \<and> distinct (listar_glb pasta)
   \<and> set (listar_arquivos pasta) = {nome \<in> fst ` set pasta. isfile pasta nome}
   \<and> sorted (listar_arquivos pasta) \<and> distinct (listar_arquivos pasta)"
  by (auto simp: listar_glb_def listar_arquivos_def listdir_def)

theorem listar_glb_exact_witness:
  "set (listar_glb models_dir) = {nome \<in> fst ` set models_dir. suffix ''.glb'' (str_lower nome)}
   \<and> listar_glb models_dir
       = [''a.glb'', ''b.Glb'', ''caf'' @ [CHR 0xC3, CHR 0xA9] @ ''.glb'', ''kart.GLB'']
   \<and> \<not> isfile models_dir ''b.Glb''
   \<and> ''inner.glb'' \<notin> set (listar_glb models_dir)
   \<and> listar_arquivos models_dir
       = [''a.glb'', ''caf'' @ [CHR 0xC3, CHR 0xA9] @ ''.glb'', ''kart.GLB'', ''notes.txt'']"
proof -
  have a: "listar_glb models_dir
      = [''a.glb'', ''b.Glb'', ''caf'' @ [CHR 0xC3, CHR 0xA9] @ ''.glb'', ''kart.GLB'']"
    by code_simp
  have b: "listar_arquivos models_dir
      = [''a.glb'', ''caf'' @ [CHR 0xC3, CHR 0xA9] @ ''.glb'', ''kart.GLB'', ''notes.txt'']"
    by code_simp
  have c: "\<not> isfile models_dir ''b.Glb''" by code_simp
  have d: "''inner.glb'' \<notin> set (listar_glb models_dir)" unfolding a by simp
  have e:
    "set (listar_glb models_dir) = {nome \<in> fst ` set models_dir. suffix ''.glb'' (str_lower nome)}"
    using listar_glb_exact [of models_dir] by blast
  show ?thesis by (intro conjI e a c d b)
qed

section \<open>Discovery (C3)\<close>

lemma lookup_append:
  "lookup t (p @ q) = (case lookup t p of None \<Rightarrow> None | Some n \<Rightarrow> lookup n q)"
  "lookup_es es x (p @ q) = (case lookup_es es x p of None \<Rightarrow> None | Some n \<Rightarrow> lookup n q)"
  by (induction t p and es x p rule: lookup_lookup_es.induct) auto

lemma set_path_parents: "set (path_parents p) = {q. strict_prefix q p}"
proof (cases p rule: rev_cases)
  case Nil
  then show ?thesis by (simp add: path_parents_def)
next
  case (snoc xs x)
  then show ?thesis by (auto simp: path_parents_def strict_prefix_def)
qed

lemma in_backup_iff:
  "(BACKUP_DIR \<in> set (path_parents p) \<or> butlast p = BACKUP_DIR) = strict_prefix BACKUP_DIR p"
proof -
  have "strict_prefix BACKUP_DIR p" if "butlast p = BACKUP_DIR"
  proof -
    from that have "p \<noteq> []" by (auto simp: BACKUP_DIR_def)
    then have "p = butlast p @ [last p]" by simp
    with that have "p = BACKUP_DIR @ [last p]" by simp
    then show ?thesis by (metis strict_prefixI' append_Nil)
  qed
  then show ?thesis by (auto simp: set_path_parents)
qed

lemma rglob_star_Dir:
  "lookup (tree w) root = Some (Dir es) \<Longrightarrow>
   rglob_star w root tail = map ((@) root) (filter (\<lambda>p. suffix tail (last p)) (walk (Dir es)))"
  by (simp add: rglob_star_def del: walk.simps)

lemma set_rglob_star:
  "set (rglob_star w root tail)
     = {p. strict_prefix root p \<and> lookup (tree w) p \<noteq> None \<and> suffix tail (last p)}"
proof (cases "lookup (tree w) root")
  case None
  then show ?thesis
    by (auto simp: rglob_star_def strict_prefix_def prefix_def lookup_append(1))
next
  case (Some n)
  show ?thesis
  proof (cases n)
    case (File c)
    with Some show ?thesis
      by (auto simp: rglob_star_def strict_prefix_def prefix_def lookup_append(1) neq_Nil_conv)
  next
    case (Dir es)
    with Some have r: "lookup (tree w) root = Some (Dir es)" by simp
    have below: "lookup (tree w) (root @ q) = lookup (Dir es) q" for q
      by (simp add: lookup_append(1) r)
    show ?thesis
    proof (intro set_eqI iffI)
      fix p
      assume "p \<in> set (rglob_star w root tail)"
      then obtain q where q: "p = root @ q" "q \<noteq> []" "lookup (Dir es) q \<noteq> None"
          "suffix tail (last q)"
        unfolding rglob_star_Dir [OF r] walk_set set_map set_filter by blast
      then show "p \<in> {p. strict_prefix root p \<and> lookup (tree w) p \<noteq> None \<and> suffix tail (last p)}"
        by (simp add: below strict_prefix_def)
    next
      fix p
      assume "p \<in> {p. strict_prefix root p \<and> lookup (tree w) p \<noteq> None \<and> suffix tail (last p)}"
      then have sp: "strict_prefix root p" and ex: "lookup (tree w) p \<noteq> None"
        and sf: "suffix tail (last p)"
        by simp_all
      from sp obtain q where q: "p = root @ q" "q \<noteq> []"
        by (auto simp: strict_prefix_def prefix_def)
      with ex sf have "q \<in> set (filter (\<lambda>p. suffix tail (last p)) (walk (Dir es)))"
        unfolding walk_set set_filter using below by simp
      then show "p \<in> set (rglob_star w root tail)"
        unfolding rglob_star_Dir [OF r] using q(1) by simp
    qed
  qed
qed

lemma distinct_rglob_star: "distinct (rglob_star w root tail)"
proof (cases "\<exists>es. lookup (tree w) root = Some (Dir es)")
  case True
  then obtain es where r: "lookup (tree w) root = Some (Dir es)" by blast
  show ?thesis unfolding rglob_star_Dir [OF r]
    by (simp add: distinct_map walk_distinct inj_on_def del: walk.simps)
next
  case False
  then show ?thesis by (auto simp: rglob_star_def split: option.splits node.splits)
qed

lemma suffix_last: "suffix x n \<Longrightarrow> x \<noteq> [] \<Longrightarrow> last n = last x"
  by (auto simp: suffix_def)


lemma glb_not_gltf: "suffix (x @ ''.glb'') n \<Longrightarrow> suffix (x @ ''.gltf'') n \<Longrightarrow> False"
proof -
  assume "suffix (x @ ''.glb'') n" "suffix (x @ ''.gltf'') n"
  then have "last n = last (x @ ''.glb'')" "last n = last (x @ ''.gltf'')"
    by (auto dest!: suffix_last)
  then show False by simp
qed

lemma discovery_exact:
  fixes w :: world and ta tb :: string
  assumes "\<And>n. \<not> (suffix ta n \<and> suffix tb n)"
  defines "found \<equiv> sort (concat (map
       (\<lambda>ext. filter
          (\<lambda>file_path. \<not> (BACKUP_DIR \<in> set (path_parents file_path) \<or> butlast file_path = BACKUP_DIR))
          (rglob_star w ASSETS_DIR ext))
       [ta, tb]))"
  shows "set found = entries_named w (\<lambda>n. suffix ta n \<or> suffix tb n)
    \<and> sorted found \<and> distinct found"
proof -
  have "set found = entries_named w (\<lambda>n. suffix ta n \<or> suffix tb n)"
    unfolding found_def entries_named_def path_exists_def
    by (auto simp: set_rglob_star in_backup_iff)
  moreover have "sorted found" by (simp add: found_def)
  moreover have "distinct found"
    unfolding found_def
    using assms(1) by (auto simp: distinct_rglob_star set_rglob_star)
  ultimately show ?thesis by (intro conjI)
qed

lemma find_optimized_files_exact:
  "set (find_optimized_files w) = entries_named w is_optimized_name
   \<and> sorted (find_optimized_files w) \<and> distinct (find_optimized_files w)"
proof -
  have a: "\<not> (suffix (''-optimized'' @ ''.glb'') n \<and> suffix (''-optimized'' @ ''.gltf'') n)" for n
    using glb_not_gltf [of "''-optimized''" n] by blast
  have c: "is_optimized_name = (\<lambda>n. suffix (''-optimized'' @ ''.glb'') n \<or> suffix (''-optimized'' @ ''.gltf'') n)"
    by (auto simp: is_optimized_name_def fun_eq_iff)
  note A = discovery_exact [where w = w and ta = "''-optimized'' @ ''.glb''"
      and tb = "''-optimized'' @ ''.gltf''", OF a]
  show ?thesis unfolding find_optimized_files_def c using A by simp
qed

lemma find_files_to_process_exact:
  "set (find_files_to_process w) = entries_named w is_model_name
   \<and> sorted (find_files_to_process w) \<and> distinct (find_files_to_process w)"
proof -
  have b: "\<not> (suffix ''.glb'' n \<and> suffix ''.gltf'' n)" for n
    using glb_not_gltf [of "[]" n] by auto
  have d: "is_model_name = (\<lambda>n. suffix ''.glb'' n \<or> suffix ''.gltf'' n)"
    by (auto simp: is_model_name_def fun_eq_iff)
  note B = discovery_exact [where w = w and ta = "''.glb''" and tb = "''.gltf''", OF b]
  show ?thesis unfolding find_files_to_process_def SUPPORTED_EXTENSIONS_def d using B by simp
qed

text \<open>
  C3, as the code has it: each discovery returns exactly the entries below the assets
  root and outside the backup subtree whose name fits its pattern (a name ending in
  \<^verbatim>\<open>-optimized.glb\<close> or \<^verbatim>\<open>-optimized.gltf\<close> for the rename-fix, in \<^verbatim>\<open>.glb\<close> or \<^verbatim>\<open>.gltf\<close> for the
  optimisation), regular files and directories alike, each once, sorted in the order of
  pathlib's paths (component by component). Discovery is a function of the world that
  returns a list and no world: it changes nothing.
\<close>

theorem discovery_finds_entries:
  "set (find_optimized_files w) = entries_named w is_optimized_name
   \<and> sorted (find_optimized_files w) \<and> distinct (find_optimized_files w)
   \<and> set (find_files_to_process w) = entries_named w is_model_name
   \<and> sorted (find_files_to_process w) \<and> distinct (find_files_to_process w)"
proof -
  note A = find_optimized_files_exact [of w]
  note B = find_files_to_process_exact [of w]
  from A have "set (find_optimized_files w) = entries_named w is_optimized_name"
    "sorted (find_optimized_files w)" "distinct (find_optimized_files w)"
    by simp_all
  moreover from B have "set (find_files_to_process w) = entries_named w is_model_name"
    "sorted (find_files_to_process w)" "distinct (find_files_to_process w)"
    by simp_all
  ultimately show ?thesis by (intro conjI)
qed

theorem discovery_finds_entries_witness:
  "find_optimized_files garage_world
     = [[''public'', ''assets'', ''car-optimized.glb''],
        [''public'', ''assets'', ''pack-optimized.glb''],
        [''public'', ''assets'', ''tracks'', ''loop-optimized.gltf'']]
   \<and> entries_named garage_world is_optimized_name
     = {[''public'', ''assets'', ''car-optimized.glb''],
        [''public'', ''assets'', ''pack-optimized.glb''],
        [''public'', ''assets'', ''tracks'', ''loop-optimized.gltf'']}
   \<and> path_exists garage_world [''public'', ''assets'', ''originals'', ''old-optimized.glb'']"
proof -
  have a: "find_optimized_files garage_world
     = [[''public'', ''assets'', ''car-optimized.glb''],
        [''public'', ''assets'', ''pack-optimized.glb''],
        [''public'', ''assets'', ''tracks'', ''loop-optimized.gltf'']]"
    by code_simp
  have b: "path_exists garage_world [''public'', ''assets'', ''originals'', ''old-optimized.glb'']"
    by code_simp
  have "set (find_optimized_files garage_world) = entries_named garage_world is_optimized_name"
    using discovery_finds_entries [of garage_world] by (rule conjunct1)
  then have c: "entries_named garage_world is_optimized_name
     = {[''public'', ''assets'', ''car-optimized.glb''],
        [''public'', ''assets'', ''pack-optimized.glb''],
        [''public'', ''assets'', ''tracks'', ''loop-optimized.gltf'']}"
    unfolding a by simp
  show ?thesis by (intro conjI a b c)
qed

text \<open>C3 as it is written speaks of the set of files; a directory whose name fits the
  pattern is returned as well.\<close>

theorem discovery_returns_a_directory:
  "set (find_optimized_files garage_world)
     \<noteq> {p \<in> entries_named garage_world is_optimized_name.
          kind_at (tree garage_world) p = Some Regular}"
proof -
  have a: "[''public'', ''assets'', ''pack-optimized.glb''] \<in> set (find_optimized_files garage_world)"
    by code_simp
  have b: "kind_at (tree garage_world) [''public'', ''assets'', ''pack-optimized.glb''] = Some Directory"
    by code_simp
  from a b show ?thesis by auto
qed

section \<open>The confirmation gate (C7)\<close>

text \<open>
  C7, as the code has it: in the rename-fix workflow the file system changes only after
  an affirmative answer; a run that leaves the world different from the one it started
  in has read one of \<^verbatim>\<open>s\<close>, \<^verbatim>\<open>sim\<close>, \<^verbatim>\<open>y\<close>, \<^verbatim>\<open>yes\<close> (after \<^verbatim>\<open>strip\<close> and \<^verbatim>\<open>lower\<close>). The
  optimisation workflow is left out: it has no prompt.
\<close>

theorem fix_main_changes_after_yes:
  assumes "final (fix_main w stdin) \<noteq> w"
  shows "\<exists>line. stdin = Some line \<and> str_lower (str_strip line) \<in> set affirmative"
proof (rule ccontr)
  assume "\<not> (\<exists>line. stdin = Some line \<and> str_lower (str_strip line) \<in> set affirmative)"
  then have "stdin = None \<or> (\<exists>line. stdin = Some line \<and> str_lower (str_strip line) \<notin> set affirmative)"
    by (cases stdin) auto
  then have "final (fix_main w stdin) = w"
    by (auto simp: fix_main_def Let_def fix_preview_same split: option.splits)
  with assms show False by simp
qed

theorem fix_main_changes_after_yes_witness:
  "final (fix_main car_world (Some ''Sim'')) \<noteq> car_world
   \<and> (\<exists>line. Some ''Sim'' = Some line \<and> str_lower (str_strip line) \<in> set affirmative)
   \<and> final (fix_main car_world (Some ([CHR 0xC2, CHR 0xA0] @ '' YES'' @ [CHR 0xE3, CHR 0x80, CHR 0x80])))
       \<noteq> car_world
   \<and> (\<exists>line. Some ([CHR 0xC2, CHR 0xA0] @ '' YES'' @ [CHR 0xE3, CHR 0x80, CHR 0x80]) = Some line
        \<and> str_lower (str_strip line) \<in> set affirmative)"
proof -
  let ?padded = "[CHR 0xC2, CHR 0xA0] @ '' YES'' @ [CHR 0xE3, CHR 0x80, CHR 0x80]"
  have a: "lookup (tree (final (fix_main car_world (Some ''Sim''))))
             [''public'', ''assets'', ''car-optimized.glb''] = None"
    by code_simp
  have a': "lookup (tree (final (fix_main car_world (Some ?padded))))
             [''public'', ''assets'', ''car-optimized.glb''] = None"
    by code_simp
  have b: "lookup (tree car_world) [''public'', ''assets'', ''car-optimized.glb'']
             = Some (File ''small'')"
    by code_simp
  from a b have c: "final (fix_main car_world (Some ''Sim'')) \<noteq> car_world" by auto
  from a' b have c': "final (fix_main car_world (Some ?padded)) \<noteq> car_world" by auto
  have d: "\<exists>line. Some ''Sim'' = Some line \<and> str_lower (str_strip line) \<in> set affirmative"
    using fix_main_changes_after_yes [OF c] .
  have d': "\<exists>line. Some ?padded = Some line \<and> str_lower (str_strip line) \<in> set affirmative"
    using fix_main_changes_after_yes [OF c'] .
  show ?thesis by (intro conjI c d c' d')
qed

text \<open>C7 as it is written covers the optimisation workflow too. \<^verbatim>\<open>main\<close> of
  optimize-assets.py takes nothing from the operator; it creates the backup directory
  and replaces the models at once.\<close>

theorem opt_main_changes_unasked:
  "\<not> path_exists car_world BACKUP_DIR
   \<and> path_exists (final (opt_main halving_env car_world)) BACKUP_DIR
   \<and> lookup (tree (final (opt_main halving_env car_world))) [''public'', ''assets'', ''car.glb'']
       = Some (File ''large'')
   \<and> final (opt_main halving_env car_world) \<noteq> car_world"
proof -
  have a: "\<not> path_exists car_world BACKUP_DIR" by code_simp
  have b: "path_exists (final (opt_main halving_env car_world)) BACKUP_DIR" by code_simp
  have c: "lookup (tree (final (opt_main halving_env car_world))) [''public'', ''assets'', ''car.glb'']
       = Some (File ''large'')"
    by code_simp
  from a b have d: "final (opt_main halving_env car_world) \<noteq> car_world" by auto
  show ?thesis by (intro conjI a b c d)
qed

section \<open>A file operation that fails (C6, C2)\<close>

text \<open>The rename-fix loop attempts every file: each one is counted as a success or
  listed as a failure, whatever happened to the ones before it.\<close>

lemma fix_loop_attempts_every_file:
  "fix_loop w files n failed = (n', failed', w') \<Longrightarrow>
   n' + length failed' = n + length failed + length files"
  by (induction files arbitrary: w n failed) (auto split: prod.splits bool.splits)

text \<open>
  C6 says that in both workflows a move or permission error on one file is reported for
  that file and the run goes on. In optimize-assets.py neither \<^verbatim>\<open>process_file\<close> nor \<^verbatim>\<open>main\<close>
  catches anything: when the move of \<^verbatim>\<open>a.glb\<close> to its backup path is refused, the run
  ends there with the exception, \<^verbatim>\<open>a.glb\<close> is in no failure list and \<^verbatim>\<open>b.glb\<close> is never
  attempted. The rename-fix run on the same refusal lists the file and goes on.
\<close>

theorem opt_main_aborts_on_refused_move:
  "find_files_to_process jammed_world
     = [[''public'', ''assets'', ''a.glb''], [''public'', ''assets'', ''b.glb'']]
   \<and> outcome (opt_main halving_env jammed_world) = Uncaught PermissionError
   \<and> success_count (opt_main halving_env jammed_world) = 0
   \<and> failed_files (opt_main halving_env jammed_world) = []
   \<and> lookup (tree (final (opt_main halving_env jammed_world))) [''public'', ''assets'', ''b.glb'']
       = Some (File ''bbbbbbbb'')
   \<and> outcome (fix_main jammed_fix_world (Some ''y'')) = Exit 0
   \<and> success_count (fix_main jammed_fix_world (Some ''y'')) = 1
   \<and> failed_files (fix_main jammed_fix_world (Some ''y'')) = [[''a-optimized.glb'']]"
proof -
  have a: "find_files_to_process jammed_world
     = [[''public'', ''assets'', ''a.glb''], [''public'', ''assets'', ''b.glb'']]"
    by code_simp
  have b: "outcome (opt_main halving_env jammed_world) = Uncaught PermissionError"
    by code_simp
  have c: "success_count (opt_main halving_env jammed_world) = 0"
    by code_simp
  have d: "failed_files (opt_main halving_env jammed_world) = []"
    by code_simp
  have e: "lookup (tree (final (opt_main halving_env jammed_world))) [''public'', ''assets'', ''b.glb'']
       = Some (File ''bbbbbbbb'')"
    by code_simp
  have f: "outcome (fix_main jammed_fix_world (Some ''y'')) = Exit 0"
    by code_simp
  have g: "success_count (fix_main jammed_fix_world (Some ''y'')) = 1"
    by code_simp
  have h: "failed_files (fix_main jammed_fix_world (Some ''y'')) = [[''a-optimized.glb'']]"
    by code_simp
  show ?thesis by (intro conjI a b c d e f g h)
qed

text \<open>
  C2 says that a file whose optimisation fails is reported as a failure, its temporary
  output deleted, the original untouched. The deletion is a bare \<^verbatim>\<open>temp_path.unlink()\<close>:
  when the optimiser times out on \<^verbatim>\<open>track.glb\<close> and the temporary path cannot be unlinked
  (here it is a directory), the exception ends the run. \<^verbatim>\<open>track.glb\<close> is untouched, but it
  is in no failure list, the temporary path is still there, and \<^verbatim>\<open>zebra.glb\<close> is never
  attempted.
\<close>

theorem opt_main_aborts_on_failed_cleanup:
  "find_files_to_process stale_world
     = [[''public'', ''assets'', ''track-temp-optimized.glb''],
        [''public'', ''assets'', ''track.glb''], [''public'', ''assets'', ''zebra.glb'']]
   \<and> outcome (opt_main timeout_env stale_world) = Uncaught IsADirectoryError
   \<and> failed_files (opt_main timeout_env stale_world) = [[''track-temp-optimized.glb'']]
   \<and> path_exists (final (opt_main timeout_env stale_world)) (temp_path_of [''public'', ''assets'', ''track.glb''])
   \<and> lookup (tree (final (opt_main timeout_env stale_world))) [''public'', ''assets'', ''track.glb'']
       = Some (File ''track'')"
proof -
  have a: "find_files_to_process stale_world
     = [[''public'', ''assets'', ''track-temp-optimized.glb''],
        [''public'', ''assets'', ''track.glb''], [''public'', ''assets'', ''zebra.glb'']]"
    by code_simp
  have b: "outcome (opt_main timeout_env stale_world) = Uncaught IsADirectoryError"
    by code_simp
  have c: "failed_files (opt_main timeout_env stale_world) = [[''track-temp-optimized.glb'']]"
    by code_simp
  have d: "path_exists (final (opt_main timeout_env stale_world))
      (temp_path_of [''public'', ''assets'', ''track.glb''])"
    by code_simp
  have e: "lookup (tree (final (opt_main timeout_env stale_world))) [''public'', ''assets'', ''track.glb'']
       = Some (File ''track'')"
    by code_simp
  show ?thesis by (intro conjI a b c d e)
qed

section \<open>What the file operations do when they succeed\<close>















lemma os_rename_missing: "lookup (tree w) src = None \<Longrightarrow> \<exists>e. os_rename w src dst = Inl e"
  by (simp add: os_rename_def)

lemma shutil_move_missing:
  "lookup (tree w) src = None \<Longrightarrow> \<exists>e. shutil_move w src dst = Inl e"
  using os_rename_missing by (auto simp: shutil_move_def)



section \<open>Names and paths of the files the scripts work on\<close>



















section \<open>The backup of the file that holds the destination\<close>







section \<open>The last move of a step\<close>













section \<open>The backup policy (C1)\<close>








section \<open>A second run (C8)\<close>















end
